theory Spec2Isabelle
  imports Main "HOL-Library.Word"
begin

section \<open>Strings\<close>

text \<open>
  A string of the source is a sequence of 16-bit code units; \<open>length\<close> counts code
  units, as \<^verbatim>\<open>value.length\<close> does. \<open>js\<close> embeds an ASCII literal.
\<close>

type_synonym code_unit = "16 word"
type_synonym jsstring = "code_unit list"

definition js :: "string \<Rightarrow> jsstring" where
  "js s = map of_char s"

text \<open>The character classes \<^verbatim>\<open>\d\<close>, \<^verbatim>\<open>\w\<close> and \<^verbatim>\<open>\s\<close> of a regular expression
  without the unicode flag. \<^verbatim>\<open>\s\<close> and \<^verbatim>\<open>trim()\<close> share one set: the white space and
  line terminator code units.\<close>

definition isDigit :: "code_unit \<Rightarrow> bool" where
  "isDigit c = (0x30 \<le> c \<and> c \<le> 0x39)"

definition isWordChar :: "code_unit \<Rightarrow> bool" where
  "isWordChar c =
     ((0x61 \<le> c \<and> c \<le> 0x7A) \<or> (0x41 \<le> c \<and> c \<le> 0x5A) \<or> isDigit c \<or> c = 0x5F)"

definition isWhiteSpace :: "code_unit \<Rightarrow> bool" where
  "isWhiteSpace c = (c \<in> set [0x09, 0x0A, 0x0B, 0x0C, 0x0D, 0x20, 0xA0, 0x1680,
      0x2000, 0x2001, 0x2002, 0x2003, 0x2004, 0x2005, 0x2006, 0x2007, 0x2008, 0x2009, 0x200A,
      0x2028, 0x2029, 0x202F, 0x205F, 0x3000, 0xFEFF])"

definition notLt :: "code_unit \<Rightarrow> bool" where
  "notLt c = (c \<noteq> 0x3C)"

text \<open>Under the \<^verbatim>\<open>i\<close> flag (and no unicode flag) two code units match when their
  canonical forms agree. The canonical form of an ASCII letter is its upper case; a code
  unit from 128 on never canonicalises to an ASCII one, and every pattern character of
  this program is ASCII, so the other code units are left as they are.\<close>

definition canonicalize :: "bool \<Rightarrow> code_unit \<Rightarrow> code_unit" where
  "canonicalize ic c = (if ic \<and> 0x61 \<le> c \<and> c \<le> 0x7A then c - 0x20 else c)"

definition trim :: "jsstring \<Rightarrow> jsstring" where
  "trim s = rev (dropWhile isWhiteSpace (rev (dropWhile isWhiteSpace s)))"

definition substring0 :: "nat \<Rightarrow> jsstring \<Rightarrow> jsstring" where
  "substring0 n s = take n s"

section \<open>Regular expressions\<close>

text \<open>
  The patterns of the program, as data. \<open>Rep mn mx r\<close> is the greedy quantifier
  \<^verbatim>\<open>r{mn,mx}\<close> (\<open>None\<close> for no upper bound): \<^verbatim>\<open>r*\<close> is \<open>Rep 0 None r\<close>, \<^verbatim>\<open>r+\<close> is
  \<open>Rep 1 None r\<close>, \<^verbatim>\<open>r?\<close> is \<open>Rep 0 (Some 1) r\<close>. \<open>NegLook r\<close> is \<^verbatim>\<open>(?!r)\<close>, \<open>WordB\<close> is
  \<^verbatim>\<open>\b\<close>, \<open>Bol\<close> and \<open>Eol\<close> are \<^verbatim>\<open>^\<close> and \<^verbatim>\<open>$\<close> without the multiline flag.
\<close>

datatype rx =
    Eps
  | Chr code_unit
  | Cls "code_unit \<Rightarrow> bool"
  | Seq rx rx
  | Rep nat "nat option" rx
  | NegLook rx
  | WordB
  | Bol
  | Eol

primrec rsize :: "rx \<Rightarrow> nat" where
  "rsize Eps = 0"
| "rsize (Chr c) = 0"
| "rsize (Cls P) = 0"
| "rsize (Seq a b) = Suc (rsize a + rsize b)"
| "rsize (Rep mn mx a) = Suc (rsize a)"
| "rsize (NegLook a) = Suc (rsize a)"
| "rsize WordB = 0"
| "rsize Bol = 0"
| "rsize Eol = 0"

primrec rmin :: "rx \<Rightarrow> nat" where
  "rmin Eps = 0"
| "rmin (Chr c) = 0"
| "rmin (Cls P) = 0"
| "rmin (Seq a b) = 0"
| "rmin (Rep mn mx a) = mn"
| "rmin (NegLook a) = 0"
| "rmin WordB = 0"
| "rmin Bol = 0"
| "rmin Eol = 0"

text \<open>
  A matcher state is the code unit before the current position (\<open>None\<close> at the start of
  the input) and the input that is left. \<open>ms ic r st\<close> lists, in the order in which the
  backtracking matcher tries them, the states in which \<open>r\<close> can end when started in
  \<open>st\<close>; \<open>ic\<close> is the \<^verbatim>\<open>i\<close> flag. The head of the list is the match the engine reports.
  A quantifier tries one more iteration before it tries to stop, and an iteration that
  consumed nothing is refused once the minimum is reached.
\<close>

type_synonym mstate = "code_unit option \<times> jsstring"

definition wordAt :: "code_unit option \<Rightarrow> bool" where
  "wordAt p = (case p of None \<Rightarrow> False | Some c \<Rightarrow> isWordChar c)"

function ms :: "bool \<Rightarrow> rx \<Rightarrow> mstate \<Rightarrow> mstate list" where
  "ms ic Eps st = [st]"
| "ms ic (Chr c) st =
     (case snd st of [] \<Rightarrow> []
      | x # xs \<Rightarrow> if canonicalize ic x = canonicalize ic c then [(Some x, xs)] else [])"
| "ms ic (Cls P) st =
     (case snd st of [] \<Rightarrow> [] | x # xs \<Rightarrow> if P x then [(Some x, xs)] else [])"
| ms_Seq: "ms ic (Seq a b) st = concat (map (ms ic b) (ms ic a st))"
| ms_Rep: "ms ic (Rep mn mx a) st =
     (if mx = Some 0 then [st]
      else let iter = concat (map (ms ic (Rep (mn - 1) (map_option (\<lambda>k. k - 1) mx) a))
                            (filter (\<lambda>y. 0 < mn \<or> length (snd y) < length (snd st))
                               (ms ic a st)))
           in if 0 < mn then iter else iter @ [st])"
| "ms ic (NegLook a) st = (if ms ic a st = [] then [st] else [])"
| "ms ic WordB st =
     (if wordAt (fst st) \<noteq> wordAt (case snd st of [] \<Rightarrow> None | x # xs \<Rightarrow> Some x)
      then [st] else [])"
| "ms ic Bol st = (if fst st = None then [st] else [])"
| "ms ic Eol st = (if snd st = [] then [st] else [])"
  by pat_completeness auto
termination
  by (relation "measures [\<lambda>(ic, r, st). rsize r, \<lambda>(ic, r, st). rmin r,
                          \<lambda>(ic, r, st). length (snd st)]")
     auto

text \<open>The equations of the quantifier and of the replacement loop unfold themselves; they
  are used where a proof asks for them.\<close>

declare ms_Rep [simp del]

definition lit :: "string \<Rightarrow> rx" where
  "lit s = foldr (\<lambda>c r. Seq (Chr (of_char c)) r) s Eps"

definition seqs :: "rx list \<Rightarrow> rx" where
  "seqs rs = foldr Seq rs Eps"

text \<open>\<^verbatim>\<open>regex.test(s)\<close> for a pattern without the global flag: the match is tried at
  every start position, from the left.\<close>

fun testFrom :: "bool \<Rightarrow> rx \<Rightarrow> code_unit option \<Rightarrow> jsstring \<Rightarrow> bool" where
  "testFrom ic r p [] = (ms ic r (p, []) \<noteq> [])"
| "testFrom ic r p (x # xs) = (ms ic r (p, x # xs) \<noteq> [] \<or> testFrom ic r (Some x) xs)"

definition test :: "bool \<Rightarrow> rx \<Rightarrow> jsstring \<Rightarrow> bool" where
  "test ic r s = testFrom ic r None s"

text \<open>\<^verbatim>\<open>s.replace(regex, "")\<close> for a pattern with the global flag: the leftmost match
  from the current position is cut out and the search goes on behind it; after an empty
  match the search moves one code unit on. A code unit at which no match starts is kept.\<close>

function replaceAll :: "bool \<Rightarrow> rx \<Rightarrow> mstate \<Rightarrow> jsstring" where
  "replaceAll ic r st =
     (case ms ic r st of
        y # ys \<Rightarrow>
          if length (snd y) < length (snd st) then replaceAll ic r y
          else (case snd st of [] \<Rightarrow> [] | x # xs \<Rightarrow> x # replaceAll ic r (Some x, xs))
      | [] \<Rightarrow> (case snd st of [] \<Rightarrow> [] | x # xs \<Rightarrow> x # replaceAll ic r (Some x, xs)))"
  by pat_completeness auto
termination
  by (relation "measure (\<lambda>(ic, r, st). length (snd st))") auto

declare replaceAll.simps [simp del]

definition replace :: "bool \<Rightarrow> rx \<Rightarrow> jsstring \<Rightarrow> jsstring" where
  "replace ic r s = replaceAll ic r (None, s)"

text \<open>A regular expression accepts from a state when the matcher finds some way to finish
  there; a pattern's shortest match is at least \<open>minLen\<close> code units long.\<close>

definition accepts :: "bool \<Rightarrow> rx \<Rightarrow> mstate \<Rightarrow> bool" where
  "accepts ic r st = (ms ic r st \<noteq> [])"

primrec minLen :: "rx \<Rightarrow> nat" where
  "minLen Eps = 0"
| "minLen (Chr c) = 1"
| "minLen (Cls P) = 1"
| "minLen (Seq a b) = minLen a + minLen b"
| "minLen (Rep mn mx a) = 0"
| "minLen (NegLook a) = 0"
| "minLen WordB = 0"
| "minLen Bol = 0"
| "minLen Eol = 0"

text \<open>The matcher state after \<open>k\<close> code units, and after the longest run of code units of
  a class; an optional result as a list.\<close>

fun adv :: "nat \<Rightarrow> mstate \<Rightarrow> mstate" where
  "adv 0 st = st"
| "adv (Suc k) (p, []) = (p, [])"
| "adv (Suc k) (p, x # xs) = adv k (Some x, xs)"

fun skipRun :: "(code_unit \<Rightarrow> bool) \<Rightarrow> mstate \<Rightarrow> mstate" where
  "skipRun P (p, []) = (p, [])"
| "skipRun P (p, x # xs) = (if P x then skipRun P (Some x, xs) else (p, x # xs))"

definition optList :: "'a option \<Rightarrow> 'a list" where
  "optList x = (case x of None \<Rightarrow> [] | Some y \<Rightarrow> [y])"

section \<open>The runtime data store (LocalSCORMDataStore)\<close>

text \<open>The patterns of \<^verbatim>\<open>validateSCORMElement\<close> and \<^verbatim>\<open>sanitizeValue\<close>:
  \<^verbatim>\<open>/^-?\d*\.?\d*$/\<close>, \<^verbatim>\<open>/^\d{2,4}:\d{2}:\d{2}(\.\d{1,2})?$/\<close>,
  \<^verbatim>\<open>/<script\b[^<]*(?:(?!<\/script>)<[^<]*)*<\/script>/gi\<close>, \<^verbatim>\<open>/javascript:/gi\<close> and
  \<^verbatim>\<open>/on\w+\s*=/gi\<close>.\<close>

definition scoreRx :: rx where
  "scoreRx = seqs [Bol, Rep 0 (Some 1) (Chr (of_char CHR ''-'')), Rep 0 None (Cls isDigit),
                   Rep 0 (Some 1) (Chr (of_char CHR ''.'')), Rep 0 None (Cls isDigit), Eol]"

definition timeRx :: rx where
  "timeRx = seqs [Bol, Rep 2 (Some 4) (Cls isDigit), Chr (of_char CHR '':''),
                  Rep 2 (Some 2) (Cls isDigit), Chr (of_char CHR '':''),
                  Rep 2 (Some 2) (Cls isDigit),
                  Rep 0 (Some 1) (seqs [Chr (of_char CHR ''.''), Rep 1 (Some 2) (Cls isDigit)]),
                  Eol]"

definition scriptRx :: rx where
  "scriptRx = seqs [lit ''<script'', WordB, Rep 0 None (Cls notLt),
                    Rep 0 None (seqs [NegLook (lit ''</script>''), Chr (of_char CHR ''<''),
                                      Rep 0 None (Cls notLt)]),
                    lit ''</script>'']"

text \<open>Two parts of the script pattern, named for the proofs: the group
  \<^verbatim>\<open>(?!<\/script>)<[^<]*\<close>, and the pattern from the group's quantifier on.\<close>

definition blockBodyRx :: rx where
  "blockBodyRx =
     seqs [NegLook (lit ''</script>''), Chr (of_char CHR ''<''), Rep 0 None (Cls notLt)]"

definition blockTailRx :: rx where
  "blockTailRx = seqs [Rep 0 None blockBodyRx, lit ''</script>'']"

definition javascriptRx :: rx where
  "javascriptRx = lit ''javascript:''"

definition handlerRx :: rx where
  "handlerRx = seqs [lit ''on'', Rep 1 None (Cls isWordChar), Rep 0 None (Cls isWhiteSpace),
                     Chr (of_char CHR ''='')]"

text \<open>The store: the own properties of the \<^verbatim>\<open>data\<close> object, the \<^verbatim>\<open>initialized\<close> flag
  and the last error code.\<close>

record store =
  data :: "jsstring \<rightharpoonup> jsstring"
  initialized :: bool
  errorCode :: jsstring

text \<open>\<^verbatim>\<open>x || d\<close> on a possibly undefined string: \<open>d\<close> when \<open>x\<close> is undefined or empty.\<close>

definition orElse :: "jsstring option \<Rightarrow> jsstring \<Rightarrow> jsstring" where
  "orElse x d = (case x of None \<Rightarrow> d | Some v \<Rightarrow> if v = [] then d else v)"

definition defaultData :: "jsstring option \<Rightarrow> (jsstring \<times> jsstring) list" where
  "defaultData userId =
     [(js ''cmi.core.student_id'', orElse userId (js ''student_001'')),
      (js ''cmi.core.student_name'', js ''Student''),
      (js ''cmi.core.lesson_location'', js ''''),
      (js ''cmi.core.credit'', js ''credit''),
      (js ''cmi.core.lesson_status'', js ''not attempted''),
      (js ''cmi.core.entry'', js ''ab-initio''),
      (js ''cmi.core.lesson_mode'', js ''normal''),
      (js ''cmi.core.exit'', js ''''),
      (js ''cmi.core.session_time'', js ''00:00:00''),
      (js ''cmi.core.total_time'', js ''00:00:00''),
      (js ''cmi.core.score.raw'', js ''''),
      (js ''cmi.core.score.max'', js ''''),
      (js ''cmi.core.score.min'', js ''''),
      (js ''cmi.suspend_data'', js ''''),
      (js ''cmi.launch_data'', js ''''),
      (js ''cmi.comments'', js ''''),
      (js ''cmi.comments_from_lms'', js '''')]"

definition LocalSCORMDataStore :: "jsstring option \<Rightarrow> jsstring option \<Rightarrow> store" where
  "LocalSCORMDataStore userId courseId =
     \<lparr>data = map_of (defaultData userId), initialized = False, errorCode = js ''0''\<rparr>"

definition initialize :: "store \<Rightarrow> bool \<times> store" where
  "initialize s =
     (if initialized s then (False, s\<lparr>errorCode := js ''101''\<rparr>)
      else (True, s\<lparr>initialized := True, errorCode := js ''0''\<rparr>))"

definition terminate :: "store \<Rightarrow> bool \<times> store" where
  "terminate s =
     (if \<not> initialized s then (False, s\<lparr>errorCode := js ''112''\<rparr>)
      else (True, s\<lparr>initialized := False, errorCode := js ''0''\<rparr>))"

text \<open>
  \<^verbatim>\<open>data\<close> is an object literal, so a name that is not an own property is looked up in
  \<^verbatim>\<open>Object.prototype\<close>. There the names below are bound, to functions and, for
  \<^verbatim>\<open>__proto__\<close>, to an accessor whose getter gives the prototype object itself: all
  truthy, none a string. \<open>Inherited n\<close> stands for what the prototype gives under \<open>n\<close>.
  An assignment \<^verbatim>\<open>data[n] = v\<close> makes or changes an own property, except for
  \<^verbatim>\<open>__proto__\<close>: there it calls the inherited setter, which ignores a string.
\<close>

datatype jsvalue = Str jsstring | Inherited jsstring

definition objectPrototypeNames :: "jsstring list" where
  "objectPrototypeNames =
     [js ''constructor'', js ''__defineGetter__'', js ''__defineSetter__'',
      js ''hasOwnProperty'', js ''__lookupGetter__'', js ''__lookupSetter__'',
      js ''isPrototypeOf'', js ''propertyIsEnumerable'', js ''toString'', js ''valueOf'',
      js ''__proto__'', js ''toLocaleString'']"

definition getValue :: "store \<Rightarrow> jsstring \<Rightarrow> jsvalue \<times> store" where
  "getValue s element =
     (if \<not> initialized s then (Str (js ''''), s\<lparr>errorCode := js ''112''\<rparr>)
      else ((case data s element of
               Some v \<Rightarrow> if v = [] then Str (js '''') else Str v
             | None \<Rightarrow>
                 if element \<in> set objectPrototypeNames then Inherited element
                 else Str (js '''')),
            s\<lparr>errorCode := js ''0''\<rparr>))"

definition readOnlyElements :: "jsstring list" where
  "readOnlyElements =
     [js ''cmi.core.student_id'', js ''cmi.core.student_name'', js ''cmi.core.credit'',
      js ''cmi.core.entry'', js ''cmi.core.lesson_mode'', js ''cmi.core.total_time'',
      js ''cmi.launch_data'', js ''cmi.comments_from_lms'']"

definition validateSCORMElement :: "jsstring \<Rightarrow> jsstring \<Rightarrow> bool" where
  "validateSCORMElement element v =
     (if length v > 4096 then False
      else if element = js ''cmi.core.lesson_status'' then
        v \<in> set [js ''passed'', js ''completed'', js ''failed'', js ''incomplete'',
                  js ''browsed'', js ''not attempted'']
      else if element = js ''cmi.core.exit'' then
        v \<in> set [js ''time-out'', js ''suspend'', js ''logout'', js ''normal'', js '''']
      else if element = js ''cmi.core.score.raw'' \<or> element = js ''cmi.core.score.max''
              \<or> element = js ''cmi.core.score.min'' then
        test False scoreRx v \<and> length v \<le> 10
      else if element = js ''cmi.core.session_time'' \<or> element = js ''cmi.core.total_time'' then
        test False timeRx v
      else True)"

definition sanitizeValue :: "jsstring \<Rightarrow> jsstring" where
  "sanitizeValue v =
     substring0 4096
       (trim (replace True handlerRx (replace True javascriptRx (replace True scriptRx v))))"

definition setValue :: "store \<Rightarrow> jsstring \<Rightarrow> jsstring \<Rightarrow> bool \<times> store" where
  "setValue s element v =
     (if \<not> initialized s then (False, s\<lparr>errorCode := js ''112''\<rparr>)
      else if element \<in> set readOnlyElements then (False, s\<lparr>errorCode := js ''403''\<rparr>)
      else if \<not> validateSCORMElement element v then (False, s\<lparr>errorCode := js ''405''\<rparr>)
      else (True, s\<lparr>data := (if element = js ''__proto__'' then data s
                                else (data s)(element \<mapsto> sanitizeValue v)),
                     errorCode := js ''0''\<rparr>))"

definition commit :: "store \<Rightarrow> bool \<times> store" where
  "commit s =
     (if \<not> initialized s then (False, s\<lparr>errorCode := js ''112''\<rparr>)
      else (True, s\<lparr>errorCode := js ''0''\<rparr>))"

definition getLastError :: "store \<Rightarrow> jsstring" where
  "getLastError s = errorCode s"

text \<open>A call of the protocol surface, and the store after a sequence of calls.\<close>

datatype call =
    Initialize
  | Terminate
  | GetValue jsstring
  | SetValue jsstring jsstring
  | Commit

fun step :: "store \<Rightarrow> call \<Rightarrow> store" where
  "step s Initialize = snd (initialize s)"
| "step s Terminate = snd (terminate s)"
| "step s (GetValue e) = snd (getValue s e)"
| "step s (SetValue e v) = snd (setValue s e v)"
| "step s Commit = snd (commit s)"

definition run :: "store \<Rightarrow> call list \<Rightarrow> store" where
  "run s cs = foldl step s cs"

text \<open>The score elements, and two readings of the specification's "signed decimal number
  pattern". \<open>signedDecimal\<close> follows the specification's words: an optional leading
  \<^verbatim>\<open>-\<close>, digits (at least one), and optionally a single \<^verbatim>\<open>.\<close> followed by digits (at
  least one). \<open>signedDecimalLoose\<close> lets either run of digits be empty.\<close>

definition scoreElements :: "jsstring list" where
  "scoreElements =
     [js ''cmi.core.score.raw'', js ''cmi.core.score.max'', js ''cmi.core.score.min'']"

definition signedDecimal :: "jsstring \<Rightarrow> bool" where
  "signedDecimal v =
     (let u = (case v of [] \<Rightarrow> v | x # xs \<Rightarrow> if x = of_char CHR ''-'' then xs else v);
          rest = dropWhile isDigit u
      in takeWhile isDigit u \<noteq> [] \<and>
         (case rest of [] \<Rightarrow> True
          | c # fs \<Rightarrow> c = of_char CHR ''.'' \<and> fs \<noteq> [] \<and> list_all isDigit fs))"

definition fracOK :: "jsstring \<Rightarrow> bool" where
  "fracOK s = (case dropWhile isDigit s of [] \<Rightarrow> True
               | c # fs \<Rightarrow> c = of_char CHR ''.'' \<and> list_all isDigit fs)"

definition signedDecimalLoose :: "jsstring \<Rightarrow> bool" where
  "signedDecimalLoose v =
     (case v of [] \<Rightarrow> True
      | x # xs \<Rightarrow> if x = of_char CHR ''-'' then fracOK xs else fracOK v)"

text \<open>
  The sanitized form of a value, in the specification's words: the value with embedded
  script blocks, \<^verbatim>\<open>javascript:\<close>-style URIs and inline event-handler attribute patterns
  removed, then trimmed and truncated to 4096 units. These definitions do not use the
  matcher. Letters are compared without regard to ASCII case.
\<close>

definition asciiUpper :: "code_unit \<Rightarrow> code_unit" where
  "asciiUpper c = (if 0x61 \<le> c \<and> c \<le> 0x7A then c - 0x20 else c)"

fun ciPrefix :: "string \<Rightarrow> jsstring \<Rightarrow> bool" where
  "ciPrefix [] s = True"
| "ciPrefix (c # w) [] = False"
| "ciPrefix (c # w) (x # xs) = (asciiUpper x = asciiUpper (of_char c) \<and> ciPrefix w xs)"

text \<open>Each of the three kinds of sequence is given by the text that follows an occurrence
  starting at the head of the string, if one starts there.
  A \<^verbatim>\<open>javascript:\<close> prefix is that word. An event-handler attribute pattern is \<^verbatim>\<open>on\<close>, then
  all the word characters that follow (at least one), then all the white space that
  follows, then \<^verbatim>\<open>=\<close>. A script block is \<^verbatim>\<open><script\<close> not followed by a word character, up
  to and including the first \<^verbatim>\<open></script>\<close> behind it.\<close>

definition afterJavascript :: "jsstring \<Rightarrow> jsstring option" where
  "afterJavascript s = (if ciPrefix ''javascript:'' s then Some (drop 11 s) else None)"

definition afterHandler :: "jsstring \<Rightarrow> jsstring option" where
  "afterHandler s =
     (if ciPrefix ''on'' s \<and> takeWhile isWordChar (drop 2 s) \<noteq> [] then
        (case dropWhile isWhiteSpace (dropWhile isWordChar (drop 2 s)) of
           [] \<Rightarrow> None
         | x # t \<Rightarrow> if x = of_char CHR ''='' then Some t else None)
      else None)"

fun findClose :: "jsstring \<Rightarrow> jsstring option" where
  "findClose [] = None"
| "findClose (x # xs) =
     (if ciPrefix ''</script>'' (x # xs) then Some (drop 9 (x # xs)) else findClose xs)"

definition afterScriptBlock :: "jsstring \<Rightarrow> jsstring option" where
  "afterScriptBlock s =
     (if ciPrefix ''<script'' s
         \<and> (case drop 7 s of [] \<Rightarrow> True | x # xs \<Rightarrow> \<not> isWordChar x)
      then findClose (drop 7 s) else None)"

text \<open>Removing every occurrence, in one pass from the left: an occurrence is cut out and
  the pass goes on behind it; a code unit at which none starts is kept. (What is left may
  again contain an occurrence, put together from the text around a cut.)\<close>

function cutAll :: "(jsstring \<Rightarrow> jsstring option) \<Rightarrow> jsstring \<Rightarrow> jsstring" where
  "cutAll f s =
     (case f s of
        Some t \<Rightarrow>
          if length t < length s then cutAll f t
          else (case s of [] \<Rightarrow> [] | x # xs \<Rightarrow> x # cutAll f xs)
      | None \<Rightarrow> (case s of [] \<Rightarrow> [] | x # xs \<Rightarrow> x # cutAll f xs))"
  by pat_completeness auto
termination
  by (relation "measure (\<lambda>(f, s). length s)") auto

declare cutAll.simps [simp del]

fun occursIn :: "(jsstring \<Rightarrow> jsstring option) \<Rightarrow> jsstring \<Rightarrow> bool" where
  "occursIn f [] = (f [] \<noteq> None)"
| "occursIn f (x # xs) = (f (x # xs) \<noteq> None \<or> occursIn f xs)"



text \<open>A value contains a script-bearing sequence when an occurrence of one of the three
  kinds starts somewhere in it.\<close>

definition scriptBearing :: "jsstring \<Rightarrow> bool" where
  "scriptBearing v =
     (occursIn afterScriptBlock v \<or> occursIn afterJavascript v \<or> occursIn afterHandler v)"

text \<open>Two concrete stores: a freshly constructed one, and the same after \<^verbatim>\<open>initialize()\<close>.\<close>

definition freshStore :: store where
  "freshStore = LocalSCORMDataStore None None"

definition activeStore :: store where
  "activeStore = snd (initialize freshStore)"

section \<open>The manifest resolver (SCORMManifestParser)\<close>

text \<open>A number of the source (the mastery score) is kept abstract.\<close>

typedecl number

text \<open>An optional string is truthy when it is present and not empty.\<close>

definition truthy :: "jsstring option \<Rightarrow> bool" where
  "truthy x = (case x of None \<Rightarrow> False | Some v \<Rightarrow> v \<noteq> [])"

datatype SCORMItem = SCORMItem
  (item_identifier: jsstring)
  (item_title: jsstring)
  (href: "jsstring option")
  (isVisible: bool)
  (prerequisites: "jsstring option")
  (maxtimeallowed: "jsstring option")
  (timelimitaction: "jsstring option")
  (datafromlms: "jsstring option")
  (masteryScore: "number option")
  (children: "SCORMItem list")
  (parameters: "jsstring option")

record SCORMOrganization =
  org_identifier :: jsstring
  org_title :: jsstring
  items :: "SCORMItem list"

record SCORMResource =
  res_identifier :: jsstring
  res_type :: jsstring
  res_href :: jsstring
  res_files :: "jsstring list"

record SCORMManifest =
  man_identifier :: jsstring
  version :: jsstring
  man_title :: "jsstring option"
  organizations :: "SCORMOrganization list"
  resources :: "SCORMResource list"
  defaultOrganization :: jsstring

text \<open>
  \<^verbatim>\<open>getPlayableItems\<close>: the inner function pushes onto the array \<^verbatim>\<open>playableItems\<close>, which
  is threaded through here. \<open>extractItem\<close> is the body of the \<^verbatim>\<open>forEach\<close> callback:
  the item is pushed when its href is truthy and it is visible, then its children are
  walked when there are any.
\<close>

fun extractItem :: "SCORMItem \<Rightarrow> SCORMItem list \<Rightarrow> SCORMItem list"
  and extractPlayableItems :: "SCORMItem list \<Rightarrow> SCORMItem list \<Rightarrow> SCORMItem list" where
  "extractItem (SCORMItem i t h v pr mt ta dl msc cs pa) playableItems =
     (let item = SCORMItem i t h v pr mt ta dl msc cs pa;
          pushed = (if truthy h \<and> v then playableItems @ [item] else playableItems)
      in if length cs > 0 then extractPlayableItems cs pushed else pushed)"
| "extractPlayableItems [] playableItems = playableItems"
| "extractPlayableItems (item # rest) playableItems =
     extractPlayableItems rest (extractItem item playableItems)"

definition getPlayableItems :: "SCORMManifest \<Rightarrow> SCORMItem list" where
  "getPlayableItems manifest =
     foldl (\<lambda>playableItems org. extractPlayableItems (items org) playableItems) []
       (organizations manifest)"

text \<open>The pre-order walk of an item tree and of a manifest, and the test of the play-list.\<close>

fun preorder :: "SCORMItem \<Rightarrow> SCORMItem list"
  and preorderList :: "SCORMItem list \<Rightarrow> SCORMItem list" where
  "preorder (SCORMItem i t h v pr mt ta dl msc cs pa) =
     SCORMItem i t h v pr mt ta dl msc cs pa # preorderList cs"
| "preorderList [] = []"
| "preorderList (item # rest) = preorder item @ preorderList rest"

definition preorderManifest :: "SCORMManifest \<Rightarrow> SCORMItem list" where
  "preorderManifest manifest = concat (map (\<lambda>org. preorderList (items org)) (organizations manifest))"

definition playable :: "SCORMItem \<Rightarrow> bool" where
  "playable item = (truthy (href item) \<and> isVisible item)"

text \<open>An item with the given identifier, href, visibility and children.\<close>

definition mkItem :: "string \<Rightarrow> string \<Rightarrow> bool \<Rightarrow> SCORMItem list \<Rightarrow> SCORMItem" where
  "mkItem i h v cs =
     SCORMItem (js i) (js ''Item'') (Some (js h)) v None None None None None cs None"

section \<open>API discovery (findAPI)\<close>

text \<open>
  A window has the two well-known bindings, each present (truthy) or not, and a parent,
  which may be null. Windows are named by numbers; \<open>W\<close> gives the window of each name.
\<close>

type_synonym win = nat

record 'api window =
  API :: "'api option"
  API_1484_11 :: "'api option"
  parent :: "win option"

definition hasAPI :: "(win \<Rightarrow> 'api window) \<Rightarrow> win \<Rightarrow> bool" where
  "hasAPI W w = (API (W w) \<noteq> None \<or> API_1484_11 (W w) \<noteq> None)"

definition canAscend :: "(win \<Rightarrow> 'api window) \<Rightarrow> win \<Rightarrow> bool" where
  "canAscend W w = (parent (W w) \<noteq> None \<and> parent (W w) \<noteq> Some w)"

definition binding :: "'api window \<Rightarrow> 'api option" where
  "binding x = (case API x of Some a \<Rightarrow> Some a | None \<Rightarrow> API_1484_11 x)"

text \<open>
  The loop of the function installed on the embedded window: the state is the current
  window and the counter \<^verbatim>\<open>attempts\<close>; the result is the state in which the loop stops,
  by its condition or by its \<^verbatim>\<open>break\<close>.
\<close>

function findLoop :: "(win \<Rightarrow> 'api window) \<Rightarrow> win \<Rightarrow> nat \<Rightarrow> win \<times> nat" where
  "findLoop W w attempts =
     (if (API (W w) = None \<and> API_1484_11 (W w) = None) \<and> parent (W w) \<noteq> None
         \<and> parent (W w) \<noteq> Some w \<and> attempts < 500
      then (case parent (W w) of
              None \<Rightarrow> (w, attempts)
            | Some p \<Rightarrow>
                if API (W p) \<noteq> None \<or> API_1484_11 (W p) \<noteq> None then (p, attempts + 1)
                else findLoop W p (attempts + 1))
      else (w, attempts))"
  by pat_completeness auto
termination
  by (relation "measure (\<lambda>(W, w, attempts). 500 - attempts)") auto

declare findLoop.simps [simp del]

definition findAPI :: "(win \<Rightarrow> 'api window) \<Rightarrow> win \<Rightarrow> 'api option" where
  "findAPI W w = binding (W (fst (findLoop W w 0)))"

text \<open>The loop of the bootstrap injected into hosted HTML: the same, without the
  \<^verbatim>\<open>break\<close>.\<close>

function bootstrapLoop :: "(win \<Rightarrow> 'api window) \<Rightarrow> win \<Rightarrow> nat \<Rightarrow> win \<times> nat" where
  "bootstrapLoop W w attempts =
     (if (API (W w) = None \<and> API_1484_11 (W w) = None) \<and> parent (W w) \<noteq> None
         \<and> parent (W w) \<noteq> Some w \<and> attempts < 500
      then (case parent (W w) of
              None \<Rightarrow> (w, attempts)
            | Some p \<Rightarrow> bootstrapLoop W p (attempts + 1))
      else (w, attempts))"
  by pat_completeness auto
termination
  by (relation "measure (\<lambda>(W, w, attempts). 500 - attempts)") auto

declare bootstrapLoop.simps [simp del]

definition bootstrapFindAPI :: "(win \<Rightarrow> 'api window) \<Rightarrow> win \<Rightarrow> 'api option" where
  "bootstrapFindAPI W w = binding (W (fst (bootstrapLoop W w 0)))"

text \<open>The window reached from \<open>w\<close> by \<open>k\<close> ascents (an ascent from a window without a
  parent stays there).\<close>

fun ascend :: "(win \<Rightarrow> 'api window) \<Rightarrow> win \<Rightarrow> nat \<Rightarrow> win" where
  "ascend W w 0 = w"
| "ascend W w (Suc k) = ascend W (case parent (W w) of None \<Rightarrow> w | Some p \<Rightarrow> p) k"

text \<open>A chain of windows for concrete runs: window \<open>k\<close> has parent \<open>k + 1\<close> up to the
  top window \<open>topw\<close>, which is its own parent; only window \<open>host\<close> carries the binding
  \<open>API\<close>.\<close>

definition chain :: "nat \<Rightarrow> nat \<Rightarrow> win \<Rightarrow> nat window" where
  "chain topw host k =
     \<lparr>API = (if k = host then Some 7 else None), API_1484_11 = None,
      parent = Some (if k < topw then k + 1 else k)\<rparr>"

section \<open>The package store (SCORMPackageManager)\<close>

text \<open>A binary payload is its bytes. A date is its time value.\<close>

type_synonym blob = "8 word list"

record SCORMPackage =
  pkg_id :: jsstring
  pkg_name :: jsstring
  uploadDate :: nat
  manifest :: SCORMManifest
  files :: "(jsstring \<times> blob) list"
  pkg_size :: nat

text \<open>
  What is persisted of a package is its metadata: \<^verbatim>\<open>{id, name, uploadDate, manifest,
  size}\<close>. The primary tier (IndexedDB) holds the metadata by package id and the file rows;
  the degraded tier (localStorage) holds a list of metadata under one key.
\<close>

record packageData =
  pd_id :: jsstring
  pd_name :: jsstring
  pd_uploadDate :: nat
  pd_manifest :: SCORMManifest
  pd_size :: nat

record fileRow =
  row_packageId :: jsstring
  row_path :: jsstring
  row_blob :: blob

record storage =
  idbPackages :: "jsstring \<rightharpoonup> packageData"
  idbFiles :: "fileRow list"
  localPackages :: "packageData list"

definition emptyStorage :: storage where
  "emptyStorage = \<lparr>idbPackages = Map.empty, idbFiles = [], localPackages = []\<rparr>"

text \<open>
  How the primary tier behaves during one call is decided outside the program:
  \<^verbatim>\<open>openDatabase()\<close> may reject (or creating the transaction may throw), a request or the
  transaction may fail later, or all goes well.
\<close>

datatype idbOutcome = OpenFails | RequestFails | Succeeds

definition packageDataOf :: "SCORMPackage \<Rightarrow> packageData" where
  "packageDataOf p =
     \<lparr>pd_id = pkg_id p, pd_name = pkg_name p, pd_uploadDate = uploadDate p,
      pd_manifest = manifest p, pd_size = pkg_size p\<rparr>"

definition packageOf :: "packageData \<Rightarrow> SCORMPackage" where
  "packageOf d =
     \<lparr>pkg_id = pd_id d, pkg_name = pd_name d, uploadDate = pd_uploadDate d,
      manifest = pd_manifest d, files = [], pkg_size = pd_size d\<rparr>"

text \<open>
  \<^verbatim>\<open>storePackage\<close>: the metadata and every file row are written in one transaction of the
  primary tier; any failure there (the whole \<^verbatim>\<open>try\<close> block awaits) is caught, and the
  metadata alone is appended to the list of the degraded tier. A failed transaction leaves
  the primary tier as it was.
\<close>

definition storePackage :: "idbOutcome \<Rightarrow> storage \<Rightarrow> SCORMPackage \<Rightarrow> storage" where
  "storePackage outcome sto p =
     (case outcome of
        Succeeds \<Rightarrow>
          sto\<lparr>idbPackages := (idbPackages sto)(pkg_id p \<mapsto> packageDataOf p),
              idbFiles := idbFiles sto @
                map (\<lambda>(path, b). \<lparr>row_packageId = pkg_id p, row_path = path, row_blob = b\<rparr>)
                    (files p)\<rparr>
      | _ \<Rightarrow> sto\<lparr>localPackages := localPackages sto @ [packageDataOf p]\<rparr>)"

text \<open>
  \<^verbatim>\<open>getPackageById\<close>: the promise it returns resolves to a package or to null, or rejects.
  The \<^verbatim>\<open>catch\<close> block, which reads the degraded tier, is entered only when opening the
  database or creating the transaction fails: the promise of the request is returned, not
  awaited, so a failing request rejects the result. A request that succeeds and finds
  nothing resolves to null.
\<close>

datatype 'a promise = Resolved 'a | Rejected

definition getPackageById ::
  "idbOutcome \<Rightarrow> storage \<Rightarrow> jsstring \<Rightarrow> SCORMPackage option promise" where
  "getPackageById outcome sto packageId =
     (case outcome of
        OpenFails \<Rightarrow>
          Resolved (map_option packageOf (find (\<lambda>p. pd_id p = packageId) (localPackages sto)))
      | RequestFails \<Rightarrow> Rejected
      | Succeeds \<Rightarrow> Resolved (map_option packageOf (idbPackages sto packageId)))"

text \<open>\<^verbatim>\<open>s.toLowerCase()\<close> on the ASCII letters; the other code units are left as they are
  (the case mapping of the other code units does not touch the suffix test below, whose
  pattern is ASCII). \<^verbatim>\<open>s.endsWith(t)\<close> and \<^verbatim>\<open>s.replace(t, "")\<close> for a string \<open>t\<close>.\<close>

definition lowerUnit :: "code_unit \<Rightarrow> code_unit" where
  "lowerUnit c = (if 0x41 \<le> c \<and> c \<le> 0x5A then c + 0x20 else c)"

definition toLowerCase :: "jsstring \<Rightarrow> jsstring" where
  "toLowerCase s = map lowerUnit s"

definition endsWith :: "jsstring \<Rightarrow> jsstring \<Rightarrow> bool" where
  "endsWith s t = (length t \<le> length s \<and> drop (length s - length t) s = t)"

fun removeFirst :: "jsstring \<Rightarrow> jsstring \<Rightarrow> jsstring" where
  "removeFirst t [] = []"
| "removeFirst t (x # xs) =
     (if take (length t) (x # xs) = t then drop (length t) (x # xs)
      else x # removeFirst t xs)"

text \<open>The file name ends in \<^verbatim>\<open>.zip\<close>, whatever the case of its letters: its last four
  code units are a dot, \<^verbatim>\<open>z\<close> or \<^verbatim>\<open>Z\<close>, \<^verbatim>\<open>i\<close> or \<^verbatim>\<open>I\<close>, and \<^verbatim>\<open>p\<close> or \<^verbatim>\<open>P\<close>.\<close>

definition endsInZip :: "jsstring \<Rightarrow> bool" where
  "endsInZip n =
     (case rev n of
        p # i # z # d # pre \<Rightarrow>
          d = of_char CHR ''.''
          \<and> (z = of_char CHR ''z'' \<or> z = of_char CHR ''Z'')
          \<and> (i = of_char CHR ''i'' \<or> i = of_char CHR ''I'')
          \<and> (p = of_char CHR ''p'' \<or> p = of_char CHR ''P'')
      | _ \<Rightarrow> False)"

text \<open>
  An upload: the file, and what the libraries around \<^verbatim>\<open>uploadPackage\<close> answer for it.
  \<^verbatim>\<open>loadAsync\<close> (JSZip) gives the entries of the archive or fails; \<^verbatim>\<open>parseFromXML\<close>
  (which runs the browser's XML parser) gives a manifest or fails; \<^verbatim>\<open>generatePackageId\<close>
  and the clock give the id and the date; \<^verbatim>\<open>purify\<close> is DOMPurify with no tag allowed.
\<close>

record File =
  file_name :: jsstring
  file_size :: nat
  file_bytes :: blob

record ZipEntry =
  dir :: bool
  entry_text :: jsstring
  entry_blob :: blob

type_synonym ZipContents = "(jsstring \<times> ZipEntry) list"

record environment =
  loadAsync :: "File \<Rightarrow> jsstring + ZipContents"
  parseFromXML :: "jsstring \<Rightarrow> jsstring + SCORMManifest"
  generatePackageId :: jsstring
  now :: nat
  purify :: "jsstring \<Rightarrow> jsstring"
  storeOutcome :: idbOutcome

text \<open>\<^verbatim>\<open>zip.file(name)\<close>: the entry of that exact name, unless it is a directory.\<close>

definition zipFile :: "ZipContents \<Rightarrow> jsstring \<Rightarrow> ZipEntry option" where
  "zipFile z n = (case map_of z n of None \<Rightarrow> None
                  | Some e \<Rightarrow> if dir e then None else Some e)"

text \<open>What \<^verbatim>\<open>uploadPackage\<close> does, in order: the progress reports, the reading of the
  archive, the extraction of an entry, the write to storage.\<close>

datatype stage = Uploading | Extracting | Parsing | Storing | Complete

datatype event =
    Progress stage nat
  | LoadArchive
  | ReadManifestText
  | ExtractEntry jsstring
  | StoreWrite jsstring

definition MAX_PACKAGE_SIZE :: nat where
  "MAX_PACKAGE_SIZE = 100 * 1024 * 1024"

definition uploadPackage ::
  "environment \<Rightarrow> storage \<Rightarrow> File \<Rightarrow> (jsstring + SCORMPackage) \<times> event list \<times> storage" where
  "uploadPackage env sto file =
     (if \<not> endsWith (toLowerCase (file_name file)) (js ''.zip'') then
        (Inl (js ''SCORM packages must be ZIP files''), [], sto)
      else if file_size file > MAX_PACKAGE_SIZE then
        (Inl (js ''Package size exceeds 100MB limit''), [], sto)
      else
        let t1 = [Progress Uploading 0, Progress Extracting 20, LoadArchive] in
        case loadAsync env file of
          Inl e \<Rightarrow> (Inl e, t1, sto)
        | Inr zipContents \<Rightarrow>
            let t2 = t1 @ [Progress Parsing 40] in
            case zipFile zipContents (js ''imsmanifest.xml'') of
              None \<Rightarrow> (Inl (js ''Invalid SCORM package: imsmanifest.xml not found''), t2, sto)
            | Some manifestFile \<Rightarrow>
                let t3 = t2 @ [ReadManifestText] in
                case parseFromXML env (entry_text manifestFile) of
                  Inl e \<Rightarrow> (Inl e, t3, sto)
                | Inr m \<Rightarrow>
                    if organizations m = [] then
                      (Inl (js ''Invalid SCORM manifest: No organizations found''), t3, sto)
                    else
                      let entries = filter (\<lambda>(path, e). \<not> dir e) zipContents;
                          t4 = t3 @ [Progress Storing 60] @ map (\<lambda>(path, e). ExtractEntry path) entries;
                          scormPackage =
                            \<lparr>pkg_id = generatePackageId env,
                             pkg_name = purify env (removeFirst (js ''.zip'') (file_name file)),
                             uploadDate = now env,
                             manifest = m,
                             files = map (\<lambda>(path, e). (path, entry_blob e)) entries,
                             pkg_size = file_size file\<rparr>;
                          t5 = t4 @ [Progress Storing 80, StoreWrite (pkg_id scormPackage)];
                          sto' = storePackage (storeOutcome env) sto scormPackage
                      in (Inr scormPackage, t5 @ [Progress Complete 100], sto'))"

definition isStoreWrite :: "event \<Rightarrow> bool" where
  "isStoreWrite e = (case e of StoreWrite i \<Rightarrow> True | _ \<Rightarrow> False)"

definition isExtraction :: "event \<Rightarrow> bool" where
  "isExtraction e =
     (case e of LoadArchive \<Rightarrow> True | ReadManifestText \<Rightarrow> True | ExtractEntry p \<Rightarrow> True
      | _ \<Rightarrow> False)"

text \<open>Concrete inputs: a manifest with the items \<open>[A, B[C, D], E]\<close>, \<open>B\<close> invisible; a
  package; three files; an environment whose archive is empty, and one whose archive holds
  a manifest without organizations.\<close>

definition itemA :: SCORMItem where "itemA = mkItem ''A'' ''a.html'' True []"
definition itemC :: SCORMItem where "itemC = mkItem ''C'' ''c.html'' True []"
definition itemD :: SCORMItem where "itemD = mkItem ''D'' ''d.html'' True []"
definition itemE :: SCORMItem where "itemE = mkItem ''E'' ''e.html'' True []"
definition itemB :: SCORMItem where "itemB = mkItem ''B'' ''b.html'' False [itemC, itemD]"

definition exampleOrg :: SCORMOrganization where
  "exampleOrg = \<lparr>org_identifier = js ''org'', org_title = js ''Organization'',
                  items = [itemA, itemB, itemE]\<rparr>"

definition exampleManifest :: SCORMManifest where
  "exampleManifest =
     \<lparr>man_identifier = js ''m'', version = js ''1.0'', man_title = None,
      organizations = [exampleOrg], resources = [], defaultOrganization = js ''org''\<rparr>"

definition examplePackage :: SCORMPackage where
  "examplePackage =
     \<lparr>pkg_id = js ''scorm_1_abc'', pkg_name = js ''course'', uploadDate = 0,
      manifest = exampleManifest, files = [], pkg_size = 10\<rparr>"

definition pdfFile :: File where
  "pdfFile = \<lparr>file_name = js ''course.pdf'', file_size = 10, file_bytes = []\<rparr>"

definition zipFileOK :: File where
  "zipFileOK = \<lparr>file_name = js ''Course.ZIP'', file_size = 10, file_bytes = []\<rparr>"

definition hugeFile :: File where
  "hugeFile = \<lparr>file_name = js ''course.zip'', file_size = 104857601, file_bytes = []\<rparr>"

definition emptyArchiveEnv :: environment where
  "emptyArchiveEnv =
     \<lparr>loadAsync = (\<lambda>f. Inr []), parseFromXML = (\<lambda>x. Inl (js ''Invalid XML: '')),
      generatePackageId = js ''scorm_1_abc'', now = 0, purify = (\<lambda>s. s),
      storeOutcome = Succeeds\<rparr>"

definition noOrgEnv :: environment where
  "noOrgEnv =
     \<lparr>loadAsync = (\<lambda>f. Inr [(js ''imsmanifest.xml'',
                                  \<lparr>dir = False, entry_text = js ''<manifest/>'', entry_blob = []\<rparr>)]),
      parseFromXML = (\<lambda>x. Inr (exampleManifest\<lparr>organizations := []\<rparr>)),
      generatePackageId = js ''scorm_1_abc'', now = 0, purify = (\<lambda>s. s),
      storeOutcome = Succeeds\<rparr>"

section \<open>Properties of the runtime data store\<close>

lemma run_stays_uninitialized:
  "\<not> initialized s \<Longrightarrow> Initialize \<notin> set cs \<Longrightarrow> \<not> initialized (run s cs)"
  unfolding run_def
proof (induction cs arbitrary: s)
  case Nil
  then show ?case by simp
next
  case (Cons c cs)
  have "\<not> initialized (step s c)"
    using Cons.prems
    by (cases c) (simp_all add: terminate_def getValue_def setValue_def commit_def)
  then show ?case using Cons by simp
qed

lemma activeStore_initialized: "initialized activeStore"
  by (simp add: activeStore_def freshStore_def LocalSCORMDataStore_def initialize_def)

text \<open>
  Claim C1, as stated, fails: the store has one boolean flag, and \<^verbatim>\<open>terminate()\<close> resets
  it, so that the store after a successful \<^verbatim>\<open>terminate()\<close> accepts \<^verbatim>\<open>initialize()\<close> again
  and is Active once more. On the fresh store: \<^verbatim>\<open>initialize()\<close>, \<^verbatim>\<open>terminate()\<close> (both
  succeed), then \<^verbatim>\<open>initialize()\<close> returns true and the store is initialized.
\<close>

theorem C1_terminated_not_terminal_counterexample:
  "initialized activeStore \<and>
   fst (terminate activeStore) = True \<and>
   fst (initialize (snd (terminate activeStore))) = True \<and>
   initialized (run (snd (terminate activeStore)) [Initialize])"
  by (simp add: activeStore_def freshStore_def LocalSCORMDataStore_def initialize_def
                terminate_def run_def)

text \<open>
  Claim C1, amended: once \<^verbatim>\<open>terminate()\<close> has succeeded from the Active state the store
  is not initialized; a second \<^verbatim>\<open>terminate()\<close> immediately after fails with the code
  "112"; no sequence of \<^verbatim>\<open>terminate\<close>, \<^verbatim>\<open>getValue\<close>, \<^verbatim>\<open>setValue\<close> and \<^verbatim>\<open>commit\<close> calls
  returns the store to Active; the state is not terminal, though: a following
  \<^verbatim>\<open>initialize()\<close> succeeds and makes the store Active again.
\<close>

theorem C1_terminate_then_reinitialize:
  assumes "initialized s"
  shows "fst (terminate s) = True \<and>
     (let t = snd (terminate s) in
        \<not> initialized t \<and>
        fst (terminate t) = False \<and> errorCode (snd (terminate t)) = js ''112'' \<and>
        (\<forall>cs. Initialize \<notin> set cs \<longrightarrow> \<not> initialized (run t cs)) \<and>
        fst (initialize t) = True \<and> initialized (snd (initialize t)))"
proof -
  have t: "\<not> initialized (snd (terminate s))"
    using assms by (simp add: terminate_def)
  show ?thesis
    using assms t run_stays_uninitialized [OF t]
    by (simp add: terminate_def initialize_def Let_def)
qed

theorem C1_terminate_then_reinitialize_witness:
  "initialized activeStore \<and>
   fst (terminate activeStore) = True \<and>
   \<not> initialized (snd (terminate activeStore)) \<and>
   fst (terminate (snd (terminate activeStore))) = False \<and>
   errorCode (snd (terminate (snd (terminate activeStore)))) = js ''112'' \<and>
   \<not> initialized (run (snd (terminate activeStore))
                    [Commit, GetValue (js ''cmi.core.exit''), Terminate]) \<and>
   initialized (snd (initialize (snd (terminate activeStore))))"
proof -
  have n: "Initialize \<notin> set [Commit, GetValue (js ''cmi.core.exit''), Terminate]"
    by simp
  show ?thesis
    using n activeStore_initialized
      C1_terminate_then_reinitialize [OF activeStore_initialized]
    by (simp add: Let_def)
qed

text \<open>
  Claim C2, as stated, fails for the read-only elements: \<^verbatim>\<open>setValue\<close> tests the read-only
  set before it validates, so an invalid value written to a read-only element leaves the
  code "403", not "405". On the active store, \<^verbatim>\<open>cmi.core.total_time\<close> with the value
  \<^verbatim>\<open>abc\<close>: validation rejects the value, and the last-error code is "403".
\<close>

theorem C2_read_only_before_validation_counterexample:
  "initialized activeStore \<and>
   \<not> validateSCORMElement (js ''cmi.core.total_time'') (js ''abc'') \<and>
   fst (setValue activeStore (js ''cmi.core.total_time'') (js ''abc'')) = False \<and>
   errorCode (snd (setValue activeStore (js ''cmi.core.total_time'') (js ''abc''))) = js ''403'' \<and>
   errorCode (snd (setValue activeStore (js ''cmi.core.total_time'') (js ''abc''))) \<noteq> js ''405''"
  by (simp add: activeStore_def freshStore_def LocalSCORMDataStore_def initialize_def
                setValue_def readOnlyElements_def validateSCORMElement_def test_def timeRx_def
                seqs_def isDigit_def js_def ms_Rep)

text \<open>
  Claim C2, amended: for every element outside the read-only set and every value, if the
  store is Active and per-element validation rejects the value, then \<^verbatim>\<open>setValue\<close> returns
  false, the last-error code becomes "405", and the element mapping is unchanged (the
  store stays Active).
\<close>

theorem C2_invalid_write_rejected:
  assumes "initialized s" and "element \<notin> set readOnlyElements"
    and "\<not> validateSCORMElement element v"
  shows "fst (setValue s element v) = False \<and>
         errorCode (snd (setValue s element v)) = js ''405'' \<and>
         data (snd (setValue s element v)) = data s \<and>
         initialized (snd (setValue s element v))"
  using assms by (simp add: setValue_def)

theorem C2_invalid_write_rejected_witness:
  "initialized activeStore \<and> js ''cmi.core.lesson_status'' \<notin> set readOnlyElements \<and>
   \<not> validateSCORMElement (js ''cmi.core.lesson_status'') (js ''done'') \<and>
   fst (setValue activeStore (js ''cmi.core.lesson_status'') (js ''done'')) = False \<and>
   errorCode (snd (setValue activeStore (js ''cmi.core.lesson_status'') (js ''done'')))
     = js ''405'' \<and>
   data (snd (setValue activeStore (js ''cmi.core.lesson_status'') (js ''done'')))
     (js ''cmi.core.lesson_status'') = Some (js ''not attempted'')"
proof -
  have r: "js ''cmi.core.lesson_status'' \<notin> set readOnlyElements"
    by (simp add: readOnlyElements_def js_def)
  have v: "\<not> validateSCORMElement (js ''cmi.core.lesson_status'') (js ''done'')"
    by (simp add: validateSCORMElement_def js_def)
  have d: "data activeStore (js ''cmi.core.lesson_status'') = Some (js ''not attempted'')"
    by (simp add: activeStore_def freshStore_def LocalSCORMDataStore_def initialize_def
                  defaultData_def js_def)
  show ?thesis
    using activeStore_initialized r v d
      C2_invalid_write_rejected [OF activeStore_initialized r v]
    by simp
qed

text \<open>
  Claim C3, as stated, fails outside the Active state: \<^verbatim>\<open>setValue\<close> tests the
  \<^verbatim>\<open>initialized\<close> flag first, so on a store that is not initialized a write to a
  read-only element fails with "112", not "403". On the fresh store,
  \<^verbatim>\<open>cmi.core.student_id\<close> with the value \<^verbatim>\<open>x\<close>.
\<close>

theorem C3_uninitialized_read_only_write_counterexample:
  "\<not> initialized freshStore \<and>
   js ''cmi.core.student_id'' \<in> set readOnlyElements \<and>
   fst (setValue freshStore (js ''cmi.core.student_id'') (js ''x'')) = False \<and>
   errorCode (snd (setValue freshStore (js ''cmi.core.student_id'') (js ''x''))) = js ''112'' \<and>
   errorCode (snd (setValue freshStore (js ''cmi.core.student_id'') (js ''x''))) \<noteq> js ''403''"
  by (simp add: freshStore_def LocalSCORMDataStore_def setValue_def readOnlyElements_def js_def)

text \<open>
  Claim C3, amended: for every element name in the fixed read-only set and every value,
  \<^verbatim>\<open>setValue\<close> returns false and changes neither the element mapping nor the
  \<^verbatim>\<open>initialized\<close> flag; the last-error code becomes "403" when the store is Active, and
  "112" when it is not (Uninitialized, or after \<^verbatim>\<open>terminate()\<close>).
\<close>

theorem C3_read_only_write_rejected:
  assumes "element \<in> set readOnlyElements"
  shows "fst (setValue s element v) = False \<and>
         errorCode (snd (setValue s element v))
           = (if initialized s then js ''403'' else js ''112'') \<and>
         data (snd (setValue s element v)) = data s \<and>
         initialized (snd (setValue s element v)) = initialized s"
  using assms by (simp add: setValue_def)

theorem C3_read_only_write_rejected_witness:
  "js ''cmi.launch_data'' \<in> set readOnlyElements \<and>
   fst (setValue activeStore (js ''cmi.launch_data'') (js ''x'')) = False \<and>
   errorCode (snd (setValue activeStore (js ''cmi.launch_data'') (js ''x''))) = js ''403''"
proof -
  have m: "js ''cmi.launch_data'' \<in> set readOnlyElements"
    by (simp add: readOnlyElements_def js_def)
  show ?thesis
    using m activeStore_initialized
      C3_read_only_write_rejected [OF m, of activeStore "js ''x''"]
    by simp
qed

text \<open>
  Claim C10: a freshly constructed store (whatever user and course id it is given) is
  pre-seeded, so that after \<^verbatim>\<open>initialize()\<close>, which succeeds, \<^verbatim>\<open>getValue\<close> returns the
  defaults "not attempted", "credit", "ab-initio", "Student" and "00:00:00" for
  \<^verbatim>\<open>cmi.core.lesson_status\<close>, \<^verbatim>\<open>cmi.core.credit\<close>, \<^verbatim>\<open>cmi.core.entry\<close>,
  \<^verbatim>\<open>cmi.core.student_name\<close> and \<^verbatim>\<open>cmi.core.total_time\<close>, none of them the empty string.
\<close>

theorem C10_defaults_after_initialize:
  "fst (initialize (LocalSCORMDataStore userId courseId)) = True \<and>
   (let s = snd (initialize (LocalSCORMDataStore userId courseId)) in
      fst (getValue s (js ''cmi.core.lesson_status'')) = Str (js ''not attempted'') \<and>
      fst (getValue s (js ''cmi.core.credit'')) = Str (js ''credit'') \<and>
      fst (getValue s (js ''cmi.core.entry'')) = Str (js ''ab-initio'') \<and>
      fst (getValue s (js ''cmi.core.student_name'')) = Str (js ''Student'') \<and>
      fst (getValue s (js ''cmi.core.total_time'')) = Str (js ''00:00:00'') \<and>
      fst (getValue s (js ''cmi.core.lesson_status'')) \<noteq> Str (js '''') \<and>
      fst (getValue s (js ''cmi.core.credit'')) \<noteq> Str (js '''') \<and>
      fst (getValue s (js ''cmi.core.entry'')) \<noteq> Str (js '''') \<and>
      fst (getValue s (js ''cmi.core.student_name'')) \<noteq> Str (js '''') \<and>
      fst (getValue s (js ''cmi.core.total_time'')) \<noteq> Str (js ''''))"
  by (simp add: LocalSCORMDataStore_def initialize_def getValue_def defaultData_def js_def)

section \<open>Properties of the matcher\<close>

lemma ms_consumes:
  "y \<in> set (ms ic r st) \<Longrightarrow> length (snd y) + minLen r \<le> length (snd st)"
proof (induction ic r st arbitrary: y rule: ms.induct)
  case (4 ic a b st)
  from "4.prems" obtain z where z: "z \<in> set (ms ic a st)" and y: "y \<in> set (ms ic b z)"
    by auto
  from "4.IH"(1) [OF z] "4.IH"(2) [OF z y] show ?case by simp
next
  case (5 ic mn mx a st)
  show ?case
  proof (cases "mx = Some 0")
    case True
    with "5.prems" show ?thesis by (simp add: ms_Rep [of ic mn "Some 0" a st])
  next
    case False
    let ?f = "filter (\<lambda>y. 0 < mn \<or> length (snd y) < length (snd st)) (ms ic a st)"
    from "5.prems" False have
      "y = st \<or> (\<exists>z \<in> set ?f. y \<in> set (ms ic (Rep (mn - 1) (map_option (\<lambda>k. k - 1) mx) a) z))"
      by (auto simp: ms_Rep [of ic mn mx a st] Let_def split: if_splits)
    then show ?thesis
    proof
      assume "y = st" then show ?thesis by simp
    next
      assume "\<exists>z \<in> set ?f. y \<in> set (ms ic (Rep (mn - 1) (map_option (\<lambda>k. k - 1) mx) a) z)"
      then obtain z where z: "z \<in> set ?f"
        and y: "y \<in> set (ms ic (Rep (mn - 1) (map_option (\<lambda>k. k - 1) mx) a) z)" by blast
      from z have za: "z \<in> set (ms ic a st)" by simp
      from "5.IH"(1) [OF False za] "5.IH"(2) [OF False z y] show ?thesis by simp
    qed
  qed
qed (auto split: list.splits if_splits)

section \<open>The score pattern\<close>

lemma ms_star_Cls_Nil: "ms ic (Rep 0 None (Cls P)) (p, []) = [(p, [])]"
  by (simp add: ms_Rep)

lemma ms_star_Cls_Cons:
  "ms ic (Rep 0 None (Cls P)) (p, x # xs) =
     (if P x then ms ic (Rep 0 None (Cls P)) (Some x, xs) @ [(p, x # xs)] else [(p, x # xs)])"
  by (simp add: ms_Rep [of ic 0 None "Cls P" "(p, x # xs)"])

lemma ms_opt_Chr:
  "ms ic (Rep 0 (Some (Suc 0)) (Chr c)) (p, s) =
     (case s of [] \<Rightarrow> [(p, [])]
      | x # xs \<Rightarrow> if canonicalize ic x = canonicalize ic c then [(Some x, xs), (p, s)]
                  else [(p, s)])"
  by (simp add: ms_Rep split: list.splits)

lemma accepts_Eol_Eps: "accepts ic (Seq Eol Eps) (p, s) \<longleftrightarrow> s = []"
  by (simp add: accepts_def)

lemma accepts_Bol: "accepts ic (Seq Bol r) (p, s) \<longleftrightarrow> p = None \<and> accepts ic r (p, s)"
  by (auto simp: accepts_def)

lemma accepts_star_Nil:
  "accepts ic (Seq (Rep 0 None (Cls P)) r) (p, []) \<longleftrightarrow> accepts ic r (p, [])"
  by (simp add: accepts_def ms_star_Cls_Nil)

lemma accepts_star_Cons:
  "accepts ic (Seq (Rep 0 None (Cls P)) r) (p, x # xs) \<longleftrightarrow>
     (P x \<and> accepts ic (Seq (Rep 0 None (Cls P)) r) (Some x, xs)) \<or> accepts ic r (p, x # xs)"
  by (auto simp: accepts_def ms_star_Cls_Cons)

lemma accepts_opt_Chr:
  "accepts ic (Seq (Rep 0 (Some (Suc 0)) (Chr c)) r) (p, s) \<longleftrightarrow>
     (case s of [] \<Rightarrow> False
      | x # xs \<Rightarrow> canonicalize ic x = canonicalize ic c \<and> accepts ic r (Some x, xs))
     \<or> accepts ic r (p, s)"
  by (auto simp: accepts_def ms_opt_Chr split: list.splits)

lemma testFrom_Bol_Some: "\<not> testFrom ic (Seq Bol r) (Some x) s"
  by (induction s arbitrary: x) simp_all

lemma test_Bol: "test ic (Seq Bol r) s \<longleftrightarrow> accepts ic r (None, s)"
  by (cases s) (simp_all add: test_def accepts_def testFrom_Bol_Some)

lemma digits_to_end:
  "accepts ic (Seq (Rep 0 None (Cls isDigit)) (Seq Eol Eps)) (p, s) \<longleftrightarrow> list_all isDigit s"
proof (induction s arbitrary: p)
  case Nil
  show ?case by (simp add: accepts_star_Nil accepts_Eol_Eps)
next
  case (Cons x xs)
  from Cons [of "Some x"] show ?case by (simp add: accepts_star_Cons accepts_Eol_Eps)
qed

lemma dot_not_digit: "\<not> isDigit 46" "\<not> isDigit 45"
  by (simp_all add: isDigit_def)

lemma frac_to_end:
  "accepts False (Seq (Rep 0 (Some (Suc 0)) (Chr 46))
              (Seq (Rep 0 None (Cls isDigit)) (Seq Eol Eps))) (p, s) \<longleftrightarrow>
   (case s of [] \<Rightarrow> True | x # xs \<Rightarrow> (x = 46 \<and> list_all isDigit xs) \<or> list_all isDigit s)"
  by (cases s) (simp_all add: accepts_opt_Chr digits_to_end canonicalize_def)

lemma num_to_end:
  "accepts False (Seq (Rep 0 None (Cls isDigit))
              (Seq (Rep 0 (Some (Suc 0)) (Chr 46))
              (Seq (Rep 0 None (Cls isDigit)) (Seq Eol Eps)))) (p, s) \<longleftrightarrow> fracOK s"
proof (induction s arbitrary: p)
  case Nil
  show ?case by (simp add: accepts_star_Nil frac_to_end fracOK_def)
next
  case (Cons x xs)
  show ?case
  proof (cases "isDigit x")
    case True
    have "fracOK xs" if "list_all isDigit xs"
    proof -
      from that have "dropWhile isDigit xs = []" by (simp add: list_all_iff)
      then show ?thesis by (simp add: fracOK_def del: dropWhile_eq_Nil_conv)
    qed
    with True Cons [of "Some x"] dot_not_digit show ?thesis
      by (auto simp: accepts_star_Cons frac_to_end fracOK_def)
  next
    case False
    then show ?thesis
      by (auto simp: accepts_star_Cons frac_to_end fracOK_def)
  qed
qed

lemma scoreRx_eq:
  "scoreRx = Seq Bol (Seq (Rep 0 (Some (Suc 0)) (Chr 45)) (Seq (Rep 0 None (Cls isDigit))
              (Seq (Rep 0 (Some (Suc 0)) (Chr 46))
              (Seq (Rep 0 None (Cls isDigit)) (Seq Eol Eps)))))"
  by (simp add: scoreRx_def seqs_def)

lemma fracOK_minus: "\<not> fracOK (45 # xs)"
  by (simp add: fracOK_def isDigit_def)

lemma test_scoreRx: "test False scoreRx v \<longleftrightarrow> signedDecimalLoose v"
  by (cases v)
     (auto simp: scoreRx_eq test_Bol accepts_opt_Chr num_to_end signedDecimalLoose_def
                 canonicalize_def fracOK_minus fracOK_def)

lemma fracOK_decomp:
  "fracOK s \<longleftrightarrow>
     (\<exists>ds1 dot ds2. s = ds1 @ dot @ ds2 \<and> list_all isDigit ds1 \<and> (dot = [] \<or> dot = [46])
        \<and> list_all isDigit ds2)"
proof
  assume ok: "fracOK s"
  have tw: "list_all isDigit (takeWhile isDigit s)"
    by (simp add: list_all_iff) (meson set_takeWhileD)
  have split: "s = takeWhile isDigit s @ dropWhile isDigit s" by simp
  show "\<exists>ds1 dot ds2. s = ds1 @ dot @ ds2 \<and> list_all isDigit ds1 \<and> (dot = [] \<or> dot = [46])
        \<and> list_all isDigit ds2"
  proof (cases "dropWhile isDigit s")
    case Nil
    with split tw have "s = takeWhile isDigit s @ [] @ [] \<and> list_all isDigit (takeWhile isDigit s)
        \<and> ([] = [] \<or> [] = [46::code_unit]) \<and> list_all isDigit []"
      by simp
    then show ?thesis by blast
  next
    case (Cons c fs)
    with ok have c: "c = 46" and fs: "list_all isDigit fs"
      by (simp_all add: fracOK_def del: dropWhile_eq_Nil_conv)
    from split Cons c have "s = takeWhile isDigit s @ [46] @ fs" by simp
    with tw fs show ?thesis by blast
  qed
next
  assume "\<exists>ds1 dot ds2. s = ds1 @ dot @ ds2 \<and> list_all isDigit ds1 \<and> (dot = [] \<or> dot = [46])
        \<and> list_all isDigit ds2"
  then obtain ds1 dot ds2 where s: "s = ds1 @ dot @ ds2" and d1: "list_all isDigit ds1"
    and dot: "dot = [] \<or> dot = [46]" and d2: "list_all isDigit ds2" by blast
  from d1 have dw: "dropWhile isDigit s = dropWhile isDigit (dot @ ds2)"
    unfolding s by (intro dropWhile_append2) (simp add: list_all_iff)
  from dot show "fracOK s"
  proof
    assume "dot = []"
    with dw d2 have "dropWhile isDigit s = []" by (simp add: list_all_iff)
    then show ?thesis by (simp add: fracOK_def del: dropWhile_eq_Nil_conv)
  next
    assume "dot = [46]"
    with dw dot_not_digit have "dropWhile isDigit s = 46 # ds2" by simp
    with d2 show ?thesis by (simp add: fracOK_def del: dropWhile_eq_Nil_conv)
  qed
qed

lemma signedDecimalLoose_decomp:
  "signedDecimalLoose v \<longleftrightarrow>
     (\<exists>sign ds1 dot ds2. v = sign @ ds1 @ dot @ ds2 \<and> (sign = [] \<or> sign = js ''-'')
        \<and> list_all isDigit ds1 \<and> (dot = [] \<or> dot = js ''.'') \<and> list_all isDigit ds2)"
proof
  assume l: "signedDecimalLoose v"
  have "\<exists>sign u. v = sign @ u \<and> (sign = [] \<or> sign = [45]) \<and> fracOK u"
  proof (cases v)
    case Nil
    then have "v = [] @ [] \<and> fracOK []" by (simp add: fracOK_def)
    then show ?thesis by blast
  next
    case (Cons x xs)
    show ?thesis
    proof (cases "x = 45")
      case True
      with l Cons have "v = [45] @ xs \<and> fracOK xs" by (simp add: signedDecimalLoose_def)
      then show ?thesis by blast
    next
      case False
      with l Cons have "v = [] @ v \<and> fracOK v" by (simp add: signedDecimalLoose_def)
      then show ?thesis by blast
    qed
  qed
  then obtain sign u where v: "v = sign @ u" and sg: "sign = [] \<or> sign = [45]" and u: "fracOK u"
    by blast
  from u obtain ds1 dot ds2 where "u = ds1 @ dot @ ds2" "list_all isDigit ds1"
      "dot = [] \<or> dot = [46]" "list_all isDigit ds2"
    unfolding fracOK_decomp by blast
  with v sg show "\<exists>sign ds1 dot ds2. v = sign @ ds1 @ dot @ ds2 \<and> (sign = [] \<or> sign = js ''-'')
        \<and> list_all isDigit ds1 \<and> (dot = [] \<or> dot = js ''.'') \<and> list_all isDigit ds2"
    by (auto simp: js_def)
next
  assume "\<exists>sign ds1 dot ds2. v = sign @ ds1 @ dot @ ds2 \<and> (sign = [] \<or> sign = js ''-'')
        \<and> list_all isDigit ds1 \<and> (dot = [] \<or> dot = js ''.'') \<and> list_all isDigit ds2"
  then obtain sign ds1 dot ds2 where v: "v = sign @ ds1 @ dot @ ds2"
    and sg: "sign = [] \<or> sign = [45]" and d1: "list_all isDigit ds1"
    and dot: "dot = [] \<or> dot = [46]" and d2: "list_all isDigit ds2"
    by (auto simp: js_def)
  from d1 dot d2 have u: "fracOK (ds1 @ dot @ ds2)" unfolding fracOK_decomp by blast
  from sg show "signedDecimalLoose v"
  proof
    assume "sign = []"
    with v u have f: "fracOK v" by simp
    show ?thesis
    proof (cases v)
      case Nil
      then show ?thesis by (simp add: signedDecimalLoose_def)
    next
      case (Cons x xs)
      with f fracOK_minus have "x \<noteq> 45" by auto
      with f Cons show ?thesis by (simp add: signedDecimalLoose_def)
    qed
  next
    assume "sign = [45]"
    with v u show ?thesis by (simp add: signedDecimalLoose_def)
  qed
qed

lemma score_not_read_only:
  "element \<in> set scoreElements \<Longrightarrow> element \<notin> set readOnlyElements"
  by (auto simp: scoreElements_def readOnlyElements_def js_def)

lemma validate_score:
  "element \<in> set scoreElements \<Longrightarrow>
     validateSCORMElement element v \<longleftrightarrow> test False scoreRx v \<and> length v \<le> 10"
  by (auto simp: scoreElements_def validateSCORMElement_def js_def)

text \<open>
  Claim C9, as stated, fails: the pattern of the code, \<^verbatim>\<open>/^-?\d*\.?\d*$/\<close>, lets both
  runs of digits be empty, so it accepts values that are not signed decimal numbers. On
  the active store, \<^verbatim>\<open>cmi.core.score.raw\<close> accepts the value \<^verbatim>\<open>-\<close>, one character long,
  which has no digit.
\<close>

theorem C9_score_accepts_lone_minus_counterexample:
  "initialized activeStore \<and>
   js ''cmi.core.score.raw'' \<in> set scoreElements \<and>
   fst (setValue activeStore (js ''cmi.core.score.raw'') (js ''-'')) = True \<and>
   length (js ''-'') \<le> 10 \<and>
   \<not> signedDecimal (js ''-'')"
  by (simp add: activeStore_def freshStore_def LocalSCORMDataStore_def initialize_def
                setValue_def readOnlyElements_def validateSCORMElement_def test_def scoreRx_def
                seqs_def isDigit_def js_def ms_Rep scoreElements_def signedDecimal_def)

text \<open>
  Claim C9, amended: for every value \<open>v\<close>, \<^verbatim>\<open>setValue\<close> on a score element in the Active
  state accepts \<open>v\<close> if and only if \<open>v\<close> is at most 10 characters long and consists of an
  optional leading \<^verbatim>\<open>-\<close>, a possibly empty run of digits, an optional single \<^verbatim>\<open>.\<close>, and
  a possibly empty run of digits.
\<close>

theorem C9_score_accepted_iff:
  assumes "initialized s" and "element \<in> set scoreElements"
  shows "fst (setValue s element v) \<longleftrightarrow>
     length v \<le> 10 \<and>
     (\<exists>sign ds1 dot ds2. v = sign @ ds1 @ dot @ ds2 \<and> (sign = [] \<or> sign = js ''-'')
        \<and> list_all isDigit ds1 \<and> (dot = [] \<or> dot = js ''.'') \<and> list_all isDigit ds2)"
proof -
  have "fst (setValue s element v) \<longleftrightarrow> validateSCORMElement element v"
    using assms score_not_read_only [OF assms(2)] by (simp add: setValue_def)
  also have "\<dots> \<longleftrightarrow> signedDecimalLoose v \<and> length v \<le> 10"
    using validate_score [OF assms(2)] by (simp add: test_scoreRx)
  finally show ?thesis unfolding signedDecimalLoose_decomp by blast
qed

theorem C9_score_accepted_iff_witness:
  "initialized activeStore \<and> js ''cmi.core.score.raw'' \<in> set scoreElements \<and>
   fst (setValue activeStore (js ''cmi.core.score.raw'') (js ''-12.5'')) \<and>
   length (js ''-12.5'') \<le> 10 \<and>
   (\<exists>sign ds1 dot ds2. js ''-12.5'' = sign @ ds1 @ dot @ ds2 \<and> (sign = [] \<or> sign = js ''-'')
        \<and> list_all isDigit ds1 \<and> (dot = [] \<or> dot = js ''.'') \<and> list_all isDigit ds2)"
proof -
  have e: "js ''cmi.core.score.raw'' \<in> set scoreElements"
    by (simp add: scoreElements_def)
  have a: "fst (setValue activeStore (js ''cmi.core.score.raw'') (js ''-12.5''))"
    by (simp add: activeStore_def freshStore_def LocalSCORMDataStore_def initialize_def
                setValue_def readOnlyElements_def validateSCORMElement_def test_def scoreRx_def
                seqs_def isDigit_def js_def ms_Rep)
  from a C9_score_accepted_iff [OF activeStore_initialized e, of "js ''-12.5''"] activeStore_initialized e
  show ?thesis by blast
qed

section \<open>Sanitization\<close>



subsection \<open>The matcher on literals and on runs of a class\<close>

text \<open>From here on a sequence is unfolded only where a proof asks for it.\<close>

declare ms_Seq [simp del]

lemma canonicalize_upper: "canonicalize True c = asciiUpper c"
  by (simp add: canonicalize_def asciiUpper_def)

lemma snd_skipRun: "snd (skipRun P st) = dropWhile P (snd st)"
  by (induction P st rule: skipRun.induct) simp_all

lemma adv_state:
  "k \<le> length s \<Longrightarrow> adv k (p, s) = (if k = 0 then p else Some (s ! (k - 1)), drop k s)"
proof (induction k arbitrary: p s)
  case 0
  show ?case by simp
next
  case (Suc k)
  then obtain x xs where s: "s = x # xs" by (cases s) auto
  with Suc.prems have "k \<le> length xs" by simp
  from Suc.IH [OF this, of "Some x"] s show ?case
    by (cases k) simp_all
qed

lemma ciPrefix_length: "ciPrefix w s \<Longrightarrow> length w \<le> length s"
  by (induction w s rule: ciPrefix.induct) simp_all

lemma ciPrefix_nth:
  "ciPrefix w s \<Longrightarrow> i < length w \<Longrightarrow> asciiUpper (s ! i) = asciiUpper (of_char (w ! i))"
proof (induction w s arbitrary: i rule: ciPrefix.induct)
  case (3 c w x xs)
  then show ?case by (cases i) simp_all
qed simp_all

lemma ms_Seq_Eps: "ms ic (Seq a Eps) st = ms ic a st"
proof -
  have "ms ic Eps = (\<lambda>y. [y])" by (rule ext) simp
  then show ?thesis by (simp add: ms_Seq)
qed

lemma ms_lit: "ms True (lit w) (p, s) = (if ciPrefix w s then [adv (length w) (p, s)] else [])"
proof (induction w arbitrary: p s)
  case Nil
  show ?case by (simp add: lit_def)
next
  case (Cons c w)
  have l: "lit (c # w) = Seq (Chr (of_char c)) (lit w)" by (simp add: lit_def)
  show ?case
    by (cases s) (simp_all add: l Cons canonicalize_upper ms_Seq)
qed

lemma ms_Seq_lit:
  "ms True (Seq (lit w) r) (p, s) =
     (if ciPrefix w s
      then ms True r (if length w = 0 then p else Some (s ! (length w - 1)), drop (length w) s)
      else [])"
  using adv_state [OF ciPrefix_length, of w s p]
  by (simp add: ms_lit ms_Seq)

lemma star_skip:
  assumes fail: "\<And>p x xs. P x \<Longrightarrow> ms ic K (p, x # xs) = []"
  shows "ms ic (Seq (Rep 0 None (Cls P)) K) (p, s) = ms ic K (skipRun P (p, s))"
proof (induction s arbitrary: p)
  case Nil
  show ?case by (simp add: ms_star_Cls_Nil ms_Seq)
next
  case (Cons x xs)
  from Cons [of "Some x"] fail [of x p xs] show ?case
    by (simp add: ms_star_Cls_Cons ms_Seq)
qed

lemma ms_plus_Cls:
  "ms ic (Seq (Rep (Suc 0) None (Cls P)) K) (p, s) =
     (case s of [] \<Rightarrow> []
      | x # xs \<Rightarrow> if P x then ms ic (Seq (Rep 0 None (Cls P)) K) (Some x, xs) else [])"
  by (cases s) (simp_all add: ms_Rep [of ic "Suc 0" None "Cls P"] ms_Seq)

lemma ms_star_Seq_unfold:
  "ms ic (Seq (Rep 0 None B) C) st =
     concat (map (ms ic (Seq (Rep 0 None B) C))
               (filter (\<lambda>y. length (snd y) < length (snd st)) (ms ic B st)))
     @ ms ic C st"
proof -
  have e: "ms ic (Seq (Rep 0 None B) C) = (\<lambda>y. concat (map (ms ic C) (ms ic (Rep 0 None B) y)))"
    by (rule ext) (simp add: ms_Seq)
  have c: "concat (concat (map (\<lambda>y. map g (h y)) L)) = concat (map (\<lambda>y. concat (map g (h y))) L)"
    for g :: "mstate \<Rightarrow> mstate list" and h :: "mstate \<Rightarrow> mstate list" and L
    by (induction L) simp_all
  show ?thesis
    by (simp add: ms_Rep [of ic 0 None B st] map_concat comp_def e c)
qed

subsection \<open>The three patterns find the three kinds of sequence\<close>

lemma asciiUpper_eq:
  "asciiUpper x = k \<longleftrightarrow>
     (0x61 \<le> x \<and> x \<le> 0x7A \<and> x = k + 0x20) \<or> (\<not> (0x61 \<le> x \<and> x \<le> 0x7A) \<and> x = k)"
  by (auto simp: asciiUpper_def)

lemma upper_eq_sign: "asciiUpper x = asciiUpper 0x3D \<longleftrightarrow> x = 0x3D"
  "asciiUpper x = asciiUpper 0x3C \<longleftrightarrow> x = 0x3C"
  by (auto simp: asciiUpper_eq) (simp_all add: asciiUpper_def)

lemma ms_on:
  "ms True (Seq (lit ''on'') r) (p, s) =
     (if ciPrefix ''on'' s then ms True r (Some (s ! 1), drop 2 s) else [])"
  using ms_Seq_lit [of "''on''" r p s] by (simp add: numeral_2_eq_2)

lemma javascript_after:
  "map snd (ms True javascriptRx (p, s)) = optList (afterJavascript s)"
  using adv_state [OF ciPrefix_length, of "''javascript:''" s p]
  by (simp add: javascriptRx_def ms_lit afterJavascript_def optList_def eval_nat_numeral)

lemma ms_eq_end:
  "ms True (Seq (Chr 0x3D) Eps) (q, r) =
     (case r of [] \<Rightarrow> [] | x # t \<Rightarrow> if x = 0x3D then [(Some x, t)] else [])"
  by (cases r) (simp_all add: canonicalize_upper upper_eq_sign ms_Seq)

lemma ms_ws_eq:
  "ms True (Seq (Rep 0 None (Cls isWhiteSpace)) (Seq (Chr 0x3D) Eps)) (p, s) =
     ms True (Seq (Chr 0x3D) Eps) (skipRun isWhiteSpace (p, s))"
proof (rule star_skip)
  fix p x xs
  assume "isWhiteSpace x"
  then have "x \<noteq> 0x3D" by (auto simp: isWhiteSpace_def)
  then show "ms True (Seq (Chr 0x3D) Eps) (p, x # xs) = []"
    by (simp add: ms_eq_end)
qed

lemma word_not_space: "isWordChar x \<Longrightarrow> \<not> isWhiteSpace x"
  by (auto simp: isWordChar_def isWhiteSpace_def isDigit_def)

lemma ms_word_ws_eq:
  "ms True (Seq (Rep 0 None (Cls isWordChar))
              (Seq (Rep 0 None (Cls isWhiteSpace)) (Seq (Chr 0x3D) Eps))) (p, s) =
     ms True (Seq (Chr 0x3D) Eps) (skipRun isWhiteSpace (skipRun isWordChar (p, s)))"
proof -
  have "ms True (Seq (Rep 0 None (Cls isWordChar))
              (Seq (Rep 0 None (Cls isWhiteSpace)) (Seq (Chr 0x3D) Eps))) (p, s) =
        ms True (Seq (Rep 0 None (Cls isWhiteSpace)) (Seq (Chr 0x3D) Eps))
           (skipRun isWordChar (p, s))"
  proof (rule star_skip)
    fix p x xs
    assume w: "isWordChar x"
    then have "x \<noteq> 0x3D" by (auto simp: isWordChar_def isDigit_def)
    with w word_not_space [OF w]
    show "ms True (Seq (Rep 0 None (Cls isWhiteSpace)) (Seq (Chr 0x3D) Eps)) (p, x # xs) = []"
      by (simp add: ms_ws_eq ms_eq_end)
  qed
  then show ?thesis
    by (cases "skipRun isWordChar (p, s)") (simp add: ms_ws_eq)
qed

lemma handlerRx_eq:
  "handlerRx = Seq (lit ''on'') (Seq (Rep (Suc 0) None (Cls isWordChar))
                 (Seq (Rep 0 None (Cls isWhiteSpace)) (Seq (Chr 0x3D) Eps)))"
  by (simp add: handlerRx_def seqs_def)

lemma handler_after:
  "map snd (ms True handlerRx (p, s)) = optList (afterHandler s)"
proof (cases "ciPrefix ''on'' s")
  case False
  then show ?thesis
    by (simp add: handlerRx_eq ms_on afterHandler_def optList_def)
next
  case True
  show ?thesis
  proof (cases "drop 2 s")
    case Nil
    with True show ?thesis
      by (simp add: handlerRx_eq ms_on ms_plus_Cls afterHandler_def optList_def)
  next
    case (Cons x xs)
    show ?thesis
    proof (cases "isWordChar x")
      case False
      with True Cons show ?thesis
        by (simp add: handlerRx_eq ms_on ms_plus_Cls afterHandler_def optList_def)
    next
      case w: True
      let ?st = "skipRun isWhiteSpace (skipRun isWordChar (Some x, xs))"
      have sn: "snd ?st = dropWhile isWhiteSpace (dropWhile isWordChar xs)"
        by (simp add: snd_skipRun)
      have m: "ms True handlerRx (p, s) = ms True (Seq (Chr 0x3D) Eps) ?st"
        using True Cons w
        by (simp add: handlerRx_eq ms_on ms_plus_Cls ms_word_ws_eq)
      have ah: "afterHandler s =
          (case dropWhile isWhiteSpace (dropWhile isWordChar xs) of [] \<Rightarrow> None
           | y # t \<Rightarrow> if y = of_char CHR ''='' then Some t else None)"
        using True Cons w by (simp add: afterHandler_def)
      obtain q' r' where st: "?st = (q', r')" by (cases ?st)
      with sn have r': "r' = dropWhile isWhiteSpace (dropWhile isWordChar xs)" by simp
      show ?thesis
        unfolding m ah st r' [symmetric]
        by (cases r') (simp_all add: ms_eq_end optList_def)
    qed
  qed
qed

declare ciPrefix.simps [simp del]
lemma scriptRx_eq:
  "scriptRx = Seq (lit ''<script'') (Seq WordB (Seq (Rep 0 None (Cls notLt)) blockTailRx))"
  by (simp add: scriptRx_def seqs_def blockTailRx_def blockBodyRx_def)

lemma ciPrefix_close_lt: "ciPrefix ''</script>'' (x # xs) \<Longrightarrow> x = 0x3C"
  by (simp add: ciPrefix.simps upper_eq_sign)

lemma ms_close:
  "map snd (ms True (Seq (lit ''</script>'') Eps) (p, s)) =
     (if ciPrefix ''</script>'' s then [drop 9 s] else [])"
  using adv_state [OF ciPrefix_length, of "''</script>''" s p]
  by (simp add: ms_Seq_Eps ms_lit eval_nat_numeral)

lemma ms_close_Nil:
  "\<not> ciPrefix ''</script>'' s \<Longrightarrow> ms True (Seq (lit ''</script>'') Eps) (p, s) = []"
  by (simp add: ms_Seq_Eps ms_lit)

lemma ms_body:
  "ms True blockBodyRx (p, s) =
     (if ciPrefix ''</script>'' s then []
      else (case s of [] \<Rightarrow> []
            | x # xs \<Rightarrow> if x = 0x3C then ms True (Rep 0 None (Cls notLt)) (Some x, xs) else []))"
  by (cases s)
     (simp_all add: blockBodyRx_def seqs_def ms_Seq [of True "NegLook (lit ''</script>'')"]
                    ms_Seq [of True "Chr 0x3C"] ms_lit ms_Seq_Eps canonicalize_upper upper_eq_sign)

lemma tail_unfold:
  "ms True blockTailRx st =
     concat (map (ms True blockTailRx)
               (filter (\<lambda>y. length (snd y) < length (snd st)) (ms True blockBodyRx st)))
     @ ms True (Seq (lit ''</script>'') Eps) st"
proof -
  have e: "blockTailRx = Seq (Rep 0 None blockBodyRx) (Seq (lit ''</script>'') Eps)"
    by (simp add: blockTailRx_def seqs_def)
  show ?thesis unfolding e by (rule ms_star_Seq_unfold)
qed

lemma tail_fail_notLt: "notLt x \<Longrightarrow> ms True blockTailRx (p, x # xs) = []"
proof -
  assume n: "notLt x"
  then have x: "x \<noteq> 0x3C" by (simp add: notLt_def)
  with ciPrefix_close_lt [of x xs] have c: "\<not> ciPrefix ''</script>'' (x # xs)" by blast
  show ?thesis
    by (subst tail_unfold) (simp add: ms_body c x ms_close_Nil)
qed

lemma tail_Nil: "ms True blockTailRx (p, []) = []"
proof -
  have c: "\<not> ciPrefix ''</script>'' []" by (simp add: ciPrefix.simps)
  show ?thesis
    by (subst tail_unfold) (simp add: ms_body ms_close_Nil [OF c])
qed

lemma tail_lt_open:
  assumes c: "\<not> ciPrefix ''</script>'' (0x3C # xs)"
  shows "ms True blockTailRx (p, 0x3C # xs)
           = ms True (Seq (Rep 0 None (Cls notLt)) blockTailRx) (Some 0x3C, xs)"
proof -
  let ?L = "ms True (Rep 0 None (Cls notLt)) (Some 0x3C, xs)"
  have "\<forall>y \<in> set ?L. length (snd y) < Suc (length xs)"
  proof
    fix y assume "y \<in> set ?L"
    from ms_consumes [OF this] show "length (snd y) < Suc (length xs)" by simp
  qed
  then have f: "filter (\<lambda>y. length (snd y) < Suc (length xs)) ?L = ?L"
    by (simp only: filter_True)
  have b: "ms True blockBodyRx (p, 0x3C # xs) = ?L"
    using c by (simp add: ms_body)
  show ?thesis
    by (subst tail_unfold) (simp add: b f ms_close_Nil [OF c] ms_Seq [of True "Rep 0 None (Cls notLt)"])
qed

lemma tail_lt_close:
  assumes c: "ciPrefix ''</script>'' (0x3C # xs)"
  shows "ms True blockTailRx (p, 0x3C # xs) = ms True (Seq (lit ''</script>'') Eps) (p, 0x3C # xs)"
  by (subst tail_unfold) (simp add: ms_body c)

lemma scan_close:
  "map snd (ms True (Seq (Rep 0 None (Cls notLt)) blockTailRx) (p, s)) = optList (findClose s)"
proof (induction s arbitrary: p)
  case Nil
  show ?case
    by (simp add: star_skip [of notLt True blockTailRx, OF tail_fail_notLt] tail_Nil optList_def)
next
  case (Cons x xs)
  note sk = star_skip [of notLt True blockTailRx, OF tail_fail_notLt]
  show ?case
  proof (cases "x = 0x3C")
    case False
    then have n: "notLt x" by (simp add: notLt_def)
    from False ciPrefix_close_lt [of x xs] have c: "\<not> ciPrefix ''</script>'' (x # xs)" by blast
    have "ms True (Seq (Rep 0 None (Cls notLt)) blockTailRx) (p, x # xs)
            = ms True (Seq (Rep 0 None (Cls notLt)) blockTailRx) (Some x, xs)"
      using n by (simp add: sk)
    with Cons [of "Some x"] c show ?thesis by simp
  next
    case True
    have nl: "\<not> notLt 0x3C" by (simp add: notLt_def)
    from True have s: "skipRun notLt (p, x # xs) = (p, 0x3C # xs)" by (simp add: notLt_def)
    show ?thesis
    proof (cases "ciPrefix ''</script>'' (0x3C # xs)")
      case c: True
      from ms_close [of p "0x3C # xs"] c True show ?thesis
        by (simp add: sk tail_lt_close [OF c] optList_def nl)
    next
      case c: False
      from Cons [of "Some 0x3C"] c True show ?thesis
        by (simp add: sk tail_lt_open [OF c] nl)
    qed
  qed
qed

lemma upper_t_word: "asciiUpper c = asciiUpper (of_char CHR ''t'') \<Longrightarrow> isWordChar c"
  by (auto simp: asciiUpper_eq isWordChar_def) (simp_all add: asciiUpper_def)

lemma script_after:
  "map snd (ms True scriptRx (p, s)) = optList (afterScriptBlock s)"
proof (cases "ciPrefix ''<script'' s")
  case False
  then show ?thesis
    by (simp add: scriptRx_eq ms_Seq_lit afterScriptBlock_def optList_def)
next
  case True
  from ciPrefix_nth [OF True, of 6] have w: "isWordChar (s ! 6)"
    by (simp add: upper_t_word)
  have o: "ms True scriptRx (p, s) = ms True (Seq WordB (Seq (Rep 0 None (Cls notLt)) blockTailRx))
             (Some (s ! 6), drop 7 s)"
    using True ms_Seq_lit [of "''<script''" _ p s] by (simp add: scriptRx_eq eval_nat_numeral)
  show ?thesis
  proof (cases "drop 7 s")
    case Nil
    with True w show ?thesis
      unfolding o
      by (simp add: ms_Seq [of True WordB] wordAt_def afterScriptBlock_def scan_close)
  next
    case (Cons x xs)
    with True w show ?thesis
      unfolding o
      by (simp add: ms_Seq [of True WordB] wordAt_def afterScriptBlock_def scan_close
                    optList_def)
  qed
qed

subsection \<open>The replacements cut the occurrences out\<close>

lemma replaceAll_cutAll:
  assumes r: "\<And>p s. map snd (ms ic r (p, s)) = optList (f s)"
  shows "replaceAll ic r (p, s) = cutAll f s"
  using r
proof (induction f s arbitrary: p rule: cutAll.induct)
  case (1 f s)
  note m = "1.prems" [of p s]
  show ?case
  proof (cases "f s")
    case None
    from None m have "map snd (ms ic r (p, s)) = []" by (simp add: optList_def)
    then have e: "ms ic r (p, s) = []" by simp
    show ?thesis
    proof (cases s)
      case Nil
      with None e show ?thesis
        by (simp add: replaceAll.simps [of ic r "(p, [])"] cutAll.simps [of f "[]"])
    next
      case (Cons x xs)
      from "1.IH"(1) [OF None Cons "1.prems", of "Some x"] None e Cons show ?thesis
        by (simp add: replaceAll.simps [of ic r "(p, x # xs)"] cutAll.simps [of f "x # xs"])
    qed
  next
    case (Some t)
    from Some m have "map snd (ms ic r (p, s)) = [t]" by (simp add: optList_def)
    then obtain q where e: "ms ic r (p, s) = [(q, t)]"
      by (cases "ms ic r (p, s)") auto
    show ?thesis
    proof (cases "length t < length s")
      case True
      from "1.IH"(2) [OF Some True "1.prems", of q] Some e True show ?thesis
        by (simp add: replaceAll.simps [of ic r "(p, s)"] cutAll.simps [of f s])
    next
      case False
      show ?thesis
      proof (cases s)
        case Nil
        with Some e False show ?thesis
          by (simp add: replaceAll.simps [of ic r "(p, [])"] cutAll.simps [of f "[]"])
      next
        case (Cons x xs)
        from "1.IH"(3) [OF Some False Cons "1.prems", of "Some x"] Some e False Cons show ?thesis
          by (simp add: replaceAll.simps [of ic r "(p, x # xs)"] cutAll.simps [of f "x # xs"])
      qed
    qed
  qed
qed

lemma replace_script: "replace True scriptRx s = cutAll afterScriptBlock s"
  unfolding replace_def by (rule replaceAll_cutAll) (rule script_after)

lemma replace_javascript: "replace True javascriptRx s = cutAll afterJavascript s"
  unfolding replace_def by (rule replaceAll_cutAll) (rule javascript_after)

lemma replace_handler: "replace True handlerRx s = cutAll afterHandler s"
  unfolding replace_def by (rule replaceAll_cutAll) (rule handler_after)

lemma sanitizeValue_spec:
  "sanitizeValue v =
     take 4096 (trim (cutAll afterHandler (cutAll afterJavascript (cutAll afterScriptBlock v))))"
  by (simp add: sanitizeValue_def substring0_def replace_script replace_javascript replace_handler)













lemma testFrom_occursIn:
  assumes r: "\<And>p s. map snd (ms ic r (p, s)) = optList (f s)"
  shows "testFrom ic r p s = occursIn f s"
proof -
  have e: "(ms ic r (q, u) \<noteq> []) = (f u \<noteq> None)" for q u
    using r [of q u] by (cases "f u") (auto simp: optList_def)
  show ?thesis
    by (induction s arbitrary: p) (simp_all add: e)
qed

lemma scriptBearing_patterns:
  "scriptBearing v \<longleftrightarrow>
     test True scriptRx v \<or> test True javascriptRx v \<or> test True handlerRx v"
  unfolding scriptBearing_def test_def
  by (simp add: testFrom_occursIn [of True scriptRx afterScriptBlock, OF script_after]
                testFrom_occursIn [of True javascriptRx afterJavascript, OF javascript_after]
                testFrom_occursIn [of True handlerRx afterHandler, OF handler_after])

text \<open>One pass of each removal can leave a sequence of the kind it removes: the pieces
  around a cut come together.\<close>

lemma sanitizeValue_leaves_javascript:
  "sanitizeValue (js ''jajavascript:vascript:x'') = js ''javascript:x'' \<and>
   scriptBearing (js ''javascript:x'')"
  by (simp add: sanitizeValue_spec scriptBearing_def cutAll.simps afterScriptBlock_def
        afterJavascript_def afterHandler_def ciPrefix.simps asciiUpper_def isWordChar_def
        isDigit_def isWhiteSpace_def trim_def js_def)




section \<open>Properties of the manifest resolver\<close>

lemma extract_filter:
  "extractItem item acc = acc @ filter playable (preorder item)"
  "extractPlayableItems its acc = acc @ filter playable (preorderList its)"
proof (induction item acc and its acc rule: extractItem_extractPlayableItems.induct)
  case (1 i t h v pr mt ta dl msc cs pa playableItems)
  then show ?case by (cases cs) (auto simp: playable_def Let_def)
next
  case (2 playableItems)
  show ?case by simp
next
  case (3 item rest playableItems)
  then show ?case by simp
qed

lemma foldl_orgs:
  "foldl (\<lambda>playableItems org. extractPlayableItems (items org) playableItems) acc orgs
     = acc @ filter playable (concat (map (\<lambda>org. preorderList (items org)) orgs))"
  by (induction orgs arbitrary: acc) (simp_all add: extract_filter)

lemma getPlayableItems_eq:
  "getPlayableItems m = filter playable (preorderManifest m)"
  by (simp add: getPlayableItems_def preorderManifest_def foldl_orgs)

lemma preorder_sel: "preorder item = item # preorderList (children item)"
  by (cases item) simp

text \<open>
  Claim C4: \<^verbatim>\<open>getPlayableItems\<close> returns the pre-order walk of every organization's item
  tree, organizations in their order, filtered to the items that have an href (a present,
  non-empty one: the test of the code is the truthiness of \<^verbatim>\<open>item.href\<close>) and are visible.
  An item that fails the test is left out and its children are still walked: for one
  organization with the items \<open>[A, B[C, D], E]\<close>, \<open>B\<close> invisible and \<open>A\<close>, \<open>C\<close>, \<open>D\<close>,
  \<open>E\<close> visible with hrefs, the play-list is \<open>[A, C, D, E]\<close>.
\<close>

theorem C4_play_list_is_filtered_preorder:
  "getPlayableItems m = filter playable (preorderManifest m) \<and>
   (organizations m = [org] \<and> items org = [A, B, E] \<and>
    children A = [] \<and> children B = [C, D] \<and> children C = [] \<and> children D = [] \<and>
    children E = [] \<and>
    \<not> isVisible B \<and> playable A \<and> playable C \<and> playable D \<and> playable E
    \<longrightarrow> getPlayableItems m = [A, C, D, E])"
  by (auto simp: getPlayableItems_eq preorderManifest_def preorder_sel playable_def)

theorem C4_play_list_is_filtered_preorder_witness:
  "organizations exampleManifest = [exampleOrg] \<and> items exampleOrg = [itemA, itemB, itemE] \<and>
   children itemB = [itemC, itemD] \<and> \<not> isVisible itemB \<and> truthy (href itemB) \<and>
   playable itemA \<and> playable itemC \<and> playable itemD \<and> playable itemE \<and>
   getPlayableItems exampleManifest = [itemA, itemC, itemD, itemE]"
proof -
  have h: "organizations exampleManifest = [exampleOrg] \<and> items exampleOrg = [itemA, itemB, itemE] \<and>
    children itemA = [] \<and> children itemB = [itemC, itemD] \<and> children itemC = [] \<and>
    children itemD = [] \<and> children itemE = [] \<and>
    \<not> isVisible itemB \<and> playable itemA \<and> playable itemC \<and> playable itemD \<and> playable itemE"
    by (simp add: exampleManifest_def exampleOrg_def itemA_def itemB_def itemC_def itemD_def
                  itemE_def mkItem_def playable_def truthy_def js_def)
  have b: "truthy (href itemB)"
    by (simp add: itemB_def mkItem_def truthy_def js_def)
  from C4_play_list_is_filtered_preorder
         [of exampleManifest exampleOrg itemA itemB itemE itemC itemD] h b
  show ?thesis by blast
qed

section \<open>Properties of API discovery\<close>

lemma bootstrapLoop_eq: "bootstrapLoop W w n = findLoop W w n"
proof (induction W w n rule: findLoop.induct)
  case (1 W w attempts)
  show ?case
  proof (cases "(API (W w) = None \<and> API_1484_11 (W w) = None) \<and> parent (W w) \<noteq> None
         \<and> parent (W w) \<noteq> Some w \<and> attempts < 500")
    case False
    then show ?thesis
      by (subst bootstrapLoop.simps, subst findLoop.simps) auto
  next
    case True
    then obtain p where p: "parent (W w) = Some p" by auto
    show ?thesis
    proof (cases "API (W p) \<noteq> None \<or> API_1484_11 (W p) \<noteq> None")
      case found: True
      have "bootstrapLoop W p (attempts + 1) = (p, attempts + 1)"
        using found by (subst bootstrapLoop.simps) auto
      with True p found show ?thesis
        by (subst bootstrapLoop.simps, subst findLoop.simps) auto
    next
      case False
      with "1.IH" [OF True p] True p show ?thesis
        by (subst bootstrapLoop.simps, subst findLoop.simps) auto
    qed
  qed
qed

lemma findLoop_char:
  assumes "findLoop W w n = (w', n')" and "n \<le> 500"
  shows "n \<le> n' \<and> n' \<le> 500 \<and> w' = ascend W w (n' - n) \<and>
         (\<forall>k < n' - n. \<not> hasAPI W (ascend W w k) \<and> canAscend W (ascend W w k)) \<and>
         (hasAPI W w' \<or> \<not> canAscend W w' \<or> n' = 500)"
  using assms
proof (induction W w n arbitrary: w' n' rule: findLoop.induct)
  case (1 W w attempts)
  show ?case
  proof (cases "(API (W w) = None \<and> API_1484_11 (W w) = None) \<and> parent (W w) \<noteq> None
         \<and> parent (W w) \<noteq> Some w \<and> attempts < 500")
    case False
    with "1.prems" have "w' = w" "n' = attempts"
      by (subst (asm) findLoop.simps, auto)+
    with False "1.prems"(2) show ?thesis
      by (auto simp: hasAPI_def canAscend_def)
  next
    case True
    then obtain p where p: "parent (W w) = Some p" by auto
    have here: "\<not> hasAPI W w \<and> canAscend W w"
      using True by (simp add: hasAPI_def canAscend_def)
    show ?thesis
    proof (cases "API (W p) \<noteq> None \<or> API_1484_11 (W p) \<noteq> None")
      case found: True
      with True p "1.prems" have r: "w' = p" "n' = attempts + 1"
        by (subst (asm) findLoop.simps, auto)+
      with True p found here show ?thesis
        by (auto simp: hasAPI_def)
    next
      case False
      with True p "1.prems" have rec: "findLoop W p (attempts + 1) = (w', n')"
        by (subst (asm) findLoop.simps) auto
      from True have le: "attempts + 1 \<le> 500" by simp
      note IH = "1.IH" [OF True p False rec le]
      from IH have n: "attempts + 1 \<le> n'" "n' \<le> 500" by simp_all
      then have d: "n' - attempts = Suc (n' - (attempts + 1))" by simp
      have before: "\<not> hasAPI W (ascend W w k) \<and> canAscend W (ascend W w k)"
        if "k < n' - attempts" for k
      proof (cases k)
        case 0
        with here show ?thesis by simp
      next
        case (Suc j)
        with that d have "j < n' - (attempts + 1)" by simp
        with IH Suc p show ?thesis by simp
      qed
      from IH have "w' = ascend W p (n' - (attempts + 1))" by blast
      with d p have at: "w' = ascend W w (n' - attempts)" by simp
      from IH have stop: "hasAPI W w' \<or> \<not> canAscend W w' \<or> n' = 500" by blast
      from n have "attempts \<le> n'" by simp
      with n at before stop show ?thesis by blast
    qed
  qed
qed

text \<open>
  Claim C8: the discovery loop always stops, after \<open>n\<close> ascents with \<open>n\<close> at most 500, at
  the window \<open>n\<close> steps up the parent chain. Every window it left had neither binding and
  had a parent other than itself; the window where it stops has a binding, or has no
  parent or is its own parent, or \<open>n\<close> is 500. The result is the binding of that window
  (\<^verbatim>\<open>API\<close> before \<^verbatim>\<open>API_1484_11\<close>), the first one found on the way up, and nothing exactly
  when that window has none. The bootstrap injected into hosted HTML computes the same.
\<close>

theorem C8_findAPI_bounded_ascent:
  "(let n = snd (findLoop W w 0); found = ascend W w n in
      n \<le> 500 \<and> fst (findLoop W w 0) = found \<and>
      (\<forall>k < n. \<not> hasAPI W (ascend W w k) \<and> canAscend W (ascend W w k)) \<and>
      (hasAPI W found \<or> \<not> canAscend W found \<or> n = 500) \<and>
      findAPI W w = binding (W found) \<and>
      (findAPI W w = None \<longleftrightarrow> \<not> hasAPI W found)) \<and>
   bootstrapLoop W w 0 = findLoop W w 0 \<and>
   bootstrapFindAPI W w = findAPI W w"
proof -
  obtain w' n' where r: "findLoop W w 0 = (w', n')" by (cases "findLoop W w 0")
  have "(0::nat) \<le> 500" by simp
  note ch = findLoop_char [OF r this]
  from ch have c1: "n' \<le> 500" and c2: "w' = ascend W w n'" by simp_all
  from ch have c3: "\<forall>k < n'. \<not> hasAPI W (ascend W w k) \<and> canAscend W (ascend W w k)"
    by simp
  from ch have "hasAPI W w' \<or> \<not> canAscend W w' \<or> n' = 500" by blast
  with c2 have c4: "hasAPI W (ascend W w n') \<or> \<not> canAscend W (ascend W w n') \<or> n' = 500"
    by simp
  have b: "binding (W w') = None \<longleftrightarrow> \<not> hasAPI W w'"
    by (auto simp: binding_def hasAPI_def split: option.splits)
  from b c2 have b': "binding (W (ascend W w n')) = None \<longleftrightarrow> \<not> hasAPI W (ascend W w n')"
    by simp
  from r c1 c2 c3 c4 b' show ?thesis
    by (simp add: Let_def findAPI_def bootstrapFindAPI_def bootstrapLoop_eq)
qed

theorem C8_findAPI_bounded_ascent_witness:
  "findLoop (chain 3 2) 0 0 = (2, 2) \<and>
   \<not> hasAPI (chain 3 2) (ascend (chain 3 2) 0 1) \<and>
   canAscend (chain 3 2) (ascend (chain 3 2) 0 1) \<and>
   findAPI (chain 3 2) 0 = Some 7 \<and>
   bootstrapFindAPI (chain 3 2) 0 = Some 7 \<and>
   findLoop (chain 3 5) 0 0 = (3, 3) \<and>
   findAPI (chain 3 5) 0 = None"
proof -
  have r: "findLoop (chain 3 2) 0 0 = (2, 2)"
    by (simp add: findLoop.simps chain_def)
  have q: "findLoop (chain 3 5) 0 0 = (3, 3)"
    by (simp add: findLoop.simps chain_def)
  have g: "findAPI (chain 3 5) 0 = None"
    by (simp add: findAPI_def q binding_def chain_def)
  note T = C8_findAPI_bounded_ascent [of "chain 3 2" 0, unfolded Let_def r snd_conv fst_conv]
  from T have "\<forall>k < 2. \<not> hasAPI (chain 3 2) (ascend (chain 3 2) 0 k)
                         \<and> canAscend (chain 3 2) (ascend (chain 3 2) 0 k)"
    by blast
  moreover have "(1::nat) < 2" by simp
  ultimately have a: "\<not> hasAPI (chain 3 2) (ascend (chain 3 2) 0 1)
                \<and> canAscend (chain 3 2) (ascend (chain 3 2) 0 1)"
    by blast
  from T have "2 = ascend (chain 3 2) 0 2"
    and "findAPI (chain 3 2) 0 = binding (chain 3 2 (ascend (chain 3 2) 0 2))"
    and e: "bootstrapFindAPI (chain 3 2) 0 = findAPI (chain 3 2) 0"
    by blast+
  then have f: "findAPI (chain 3 2) 0 = Some 7"
    by (simp add: binding_def chain_def)
  from r a f e q g show ?thesis by simp
qed

section \<open>Properties of the package store\<close>

lemma lowerUnit_eq:
  "lowerUnit c = k \<longleftrightarrow>
     (0x41 \<le> c \<and> c \<le> 0x5A \<and> c = k - 0x20) \<or> (\<not> (0x41 \<le> c \<and> c \<le> 0x5A) \<and> c = k)"
  by (auto simp: lowerUnit_def)

lemma lowerUnit_zip:
  "lowerUnit d = 0x2E \<longleftrightarrow> d = 0x2E"
  "lowerUnit z = 0x7A \<longleftrightarrow> z = 0x7A \<or> z = 0x5A"
  "lowerUnit i = 0x69 \<longleftrightarrow> i = 0x69 \<or> i = 0x49"
  "lowerUnit p = 0x70 \<longleftrightarrow> p = 0x70 \<or> p = 0x50"
  by (auto simp: lowerUnit_eq)

lemma four_prefix: "4 \<le> length xs \<Longrightarrow> \<exists>a b c d ys. xs = a # b # c # d # ys"
  by (auto simp: numeral_eq_Suc Suc_le_length_iff)

lemma endsWith_zip_short:
  "length n < 4 \<Longrightarrow> \<not> endsWith (toLowerCase n) (js ''.zip'')"
  by (simp add: endsWith_def toLowerCase_def js_def)

lemma endsInZip_short: "length n < 4 \<Longrightarrow> \<not> endsInZip n"
proof -
  assume "length n < 4"
  then have "length (rev n) < 4" by simp
  then show ?thesis
    unfolding endsInZip_def by (auto split: list.splits)
qed

lemma endsWith_zip_iff: "endsWith (toLowerCase n) (js ''.zip'') \<longleftrightarrow> endsInZip n"
proof (cases "length n < 4")
  case True
  then show ?thesis using endsWith_zip_short endsInZip_short by blast
next
  case False
  then have "4 \<le> length (rev n)" by simp
  from four_prefix [OF this] obtain p i z d pre where r: "rev n = p # i # z # d # pre"
    by blast
  then have n: "n = rev pre @ [d, z, i, p]"
    by (metis append.assoc append_Cons append_Nil rev.simps(2) rev_rev_ident)
  have "endsWith (toLowerCase n) (js ''.zip'') \<longleftrightarrow>
        [lowerUnit d, lowerUnit z, lowerUnit i, lowerUnit p] = [0x2E, 0x7A, 0x69, 0x70]"
    unfolding n by (simp add: endsWith_def toLowerCase_def js_def)
  also have "\<dots> \<longleftrightarrow> endsInZip n"
    using r by (simp add: endsInZip_def lowerUnit_zip)
  finally show ?thesis .
qed


lemma uploadPackage_failure_no_write:
  "isl (fst (uploadPackage env sto file)) \<Longrightarrow>
     snd (snd (uploadPackage env sto file)) = sto \<and>
     \<not> list_ex isStoreWrite (fst (snd (uploadPackage env sto file)))"
  by (auto simp: uploadPackage_def Let_def isStoreWrite_def split: sum.splits option.splits if_splits)

text \<open>
  Claim C7: \<^verbatim>\<open>uploadPackage\<close> rejects a file whose name does not end in \<^verbatim>\<open>.zip\<close> (in any
  case of the letters) with "SCORM packages must be ZIP files", and a file larger than
  100 MiB with "Package size exceeds 100MB limit", in both cases before anything else
  happens: no progress report, no reading of the archive, no extraction. It fails with
  "Invalid SCORM package: imsmanifest.xml not found" when the archive has no file entry
  \<^verbatim>\<open>imsmanifest.xml\<close>, and with "Invalid SCORM manifest: No organizations found" when the
  parsed manifest has no organization. Whenever it fails, the storage is as before and
  no write to storage was started.
\<close>

theorem C7_upload_rejections:
  "(\<not> endsInZip (file_name f) \<longrightarrow>
      uploadPackage env sto f = (Inl (js ''SCORM packages must be ZIP files''), [], sto)) \<and>
   (endsInZip (file_name f) \<and> file_size f > 100 * 1024 * 1024 \<longrightarrow>
      uploadPackage env sto f = (Inl (js ''Package size exceeds 100MB limit''), [], sto)) \<and>
   (\<not> endsInZip (file_name f) \<or> file_size f > 100 * 1024 * 1024 \<longrightarrow>
      isl (fst (uploadPackage env sto f)) \<and>
      \<not> list_ex isExtraction (fst (snd (uploadPackage env sto f)))) \<and>
   (endsInZip (file_name f) \<and> file_size f \<le> 100 * 1024 * 1024 \<and>
    loadAsync env f = Inr z \<and> zipFile z (js ''imsmanifest.xml'') = None \<longrightarrow>
      fst (uploadPackage env sto f)
        = Inl (js ''Invalid SCORM package: imsmanifest.xml not found'')) \<and>
   (endsInZip (file_name f) \<and> file_size f \<le> 100 * 1024 * 1024 \<and>
    loadAsync env f = Inr z \<and> zipFile z (js ''imsmanifest.xml'') = Some mf \<and>
    parseFromXML env (entry_text mf) = Inr m \<and> organizations m = [] \<longrightarrow>
      fst (uploadPackage env sto f)
        = Inl (js ''Invalid SCORM manifest: No organizations found'')) \<and>
   (isl (fst (uploadPackage env sto f)) \<longrightarrow>
      snd (snd (uploadPackage env sto f)) = sto \<and>
      \<not> list_ex isStoreWrite (fst (snd (uploadPackage env sto f))))"
proof -
  have a: "\<not> endsInZip (file_name f) \<longrightarrow>
      uploadPackage env sto f = (Inl (js ''SCORM packages must be ZIP files''), [], sto)"
    by (simp add: uploadPackage_def endsWith_zip_iff)
  have b: "endsInZip (file_name f) \<and> file_size f > 100 * 1024 * 1024 \<longrightarrow>
      uploadPackage env sto f = (Inl (js ''Package size exceeds 100MB limit''), [], sto)"
    by (simp add: uploadPackage_def endsWith_zip_iff MAX_PACKAGE_SIZE_def)
  have c: "\<not> endsInZip (file_name f) \<or> file_size f > 100 * 1024 * 1024 \<longrightarrow>
      isl (fst (uploadPackage env sto f)) \<and>
      \<not> list_ex isExtraction (fst (snd (uploadPackage env sto f)))"
    by (simp add: uploadPackage_def endsWith_zip_iff MAX_PACKAGE_SIZE_def)
  have d: "endsInZip (file_name f) \<and> file_size f \<le> 100 * 1024 * 1024 \<and>
    loadAsync env f = Inr z \<and> zipFile z (js ''imsmanifest.xml'') = None \<longrightarrow>
      fst (uploadPackage env sto f)
        = Inl (js ''Invalid SCORM package: imsmanifest.xml not found'')"
    by (simp add: uploadPackage_def endsWith_zip_iff MAX_PACKAGE_SIZE_def)
  have e: "endsInZip (file_name f) \<and> file_size f \<le> 100 * 1024 * 1024 \<and>
    loadAsync env f = Inr z \<and> zipFile z (js ''imsmanifest.xml'') = Some mf \<and>
    parseFromXML env (entry_text mf) = Inr m \<and> organizations m = [] \<longrightarrow>
      fst (uploadPackage env sto f)
        = Inl (js ''Invalid SCORM manifest: No organizations found'')"
    by (simp add: uploadPackage_def endsWith_zip_iff MAX_PACKAGE_SIZE_def)
  from a b c d e uploadPackage_failure_no_write [of env sto f] show ?thesis
    by blast
qed

theorem C7_upload_rejections_witness:
  "\<not> endsInZip (file_name pdfFile) \<and>
   uploadPackage emptyArchiveEnv emptyStorage pdfFile
     = (Inl (js ''SCORM packages must be ZIP files''), [], emptyStorage) \<and>
   endsInZip (file_name hugeFile) \<and> file_size hugeFile > 100 * 1024 * 1024 \<and>
   uploadPackage emptyArchiveEnv emptyStorage hugeFile
     = (Inl (js ''Package size exceeds 100MB limit''), [], emptyStorage) \<and>
   endsInZip (file_name zipFileOK) \<and> file_size zipFileOK \<le> 100 * 1024 * 1024 \<and>
   fst (uploadPackage emptyArchiveEnv emptyStorage zipFileOK)
     = Inl (js ''Invalid SCORM package: imsmanifest.xml not found'') \<and>
   snd (snd (uploadPackage emptyArchiveEnv emptyStorage zipFileOK)) = emptyStorage \<and>
   fst (uploadPackage noOrgEnv emptyStorage zipFileOK)
     = Inl (js ''Invalid SCORM manifest: No organizations found'') \<and>
   snd (snd (uploadPackage noOrgEnv emptyStorage zipFileOK)) = emptyStorage"
proof -
  let ?mf = "\<lparr>dir = False, entry_text = js ''<manifest/>'', entry_blob = []\<rparr>"
  let ?m = "exampleManifest\<lparr>organizations := []\<rparr>"
  have p: "\<not> endsInZip (file_name pdfFile)"
    by (simp add: pdfFile_def endsInZip_def js_def)
  have h: "endsInZip (file_name hugeFile) \<and> file_size hugeFile > 100 * 1024 * 1024"
    by (simp add: hugeFile_def endsInZip_def js_def)
  have z: "endsInZip (file_name zipFileOK) \<and> file_size zipFileOK \<le> 100 * 1024 * 1024"
    by (simp add: zipFileOK_def endsInZip_def js_def)
  have e: "loadAsync emptyArchiveEnv zipFileOK = Inr [] \<and> zipFile [] (js ''imsmanifest.xml'') = None"
    by (simp add: emptyArchiveEnv_def zipFile_def)
  have n: "loadAsync noOrgEnv zipFileOK = Inr [(js ''imsmanifest.xml'', ?mf)] \<and>
           zipFile [(js ''imsmanifest.xml'', ?mf)] (js ''imsmanifest.xml'') = Some ?mf \<and>
           parseFromXML noOrgEnv (entry_text ?mf) = Inr ?m \<and> organizations ?m = []"
    by (simp add: noOrgEnv_def zipFile_def)
  note T1 = C7_upload_rejections [of pdfFile emptyArchiveEnv emptyStorage]
  note T2 = C7_upload_rejections [of hugeFile emptyArchiveEnv emptyStorage]
  note T3 = C7_upload_rejections [of zipFileOK emptyArchiveEnv emptyStorage "[]"]
  note T4 = C7_upload_rejections [of zipFileOK noOrgEnv emptyStorage
                                     "[(js ''imsmanifest.xml'', ?mf)]" ?mf ?m]
  from T1 p have r1: "uploadPackage emptyArchiveEnv emptyStorage pdfFile
     = (Inl (js ''SCORM packages must be ZIP files''), [], emptyStorage)" by blast
  from T2 h have r2: "uploadPackage emptyArchiveEnv emptyStorage hugeFile
     = (Inl (js ''Package size exceeds 100MB limit''), [], emptyStorage)" by blast
  from T3 z e have r3: "fst (uploadPackage emptyArchiveEnv emptyStorage zipFileOK)
     = Inl (js ''Invalid SCORM package: imsmanifest.xml not found'')" by blast
  with T3 have r3': "snd (snd (uploadPackage emptyArchiveEnv emptyStorage zipFileOK)) = emptyStorage"
    by simp
  from T4 z n have r4: "fst (uploadPackage noOrgEnv emptyStorage zipFileOK)
     = Inl (js ''Invalid SCORM manifest: No organizations found'')" by blast
  with T4 have r4': "snd (snd (uploadPackage noOrgEnv emptyStorage zipFileOK)) = emptyStorage"
    by simp
  from p h z r1 r2 r3 r3' r4 r4' show ?thesis by blast
qed

text \<open>
  Claim C6, as stated, fails: \<^verbatim>\<open>getPackageById\<close> reads the degraded tier only in its
  \<^verbatim>\<open>catch\<close> block. A package whose write to the primary tier failed has its metadata in
  the degraded tier only; with the primary tier available again, the lookup finds nothing
  there and resolves to null.
\<close>

theorem C6_no_fallback_when_primary_finds_nothing_counterexample:
  "localPackages (storePackage RequestFails emptyStorage examplePackage)
     = [packageDataOf examplePackage] \<and>
   idbPackages (storePackage RequestFails emptyStorage examplePackage) (pkg_id examplePackage)
     = None \<and>
   getPackageById Succeeds (storePackage RequestFails emptyStorage examplePackage)
     (pkg_id examplePackage) = Resolved None"
  by (simp add: storePackage_def emptyStorage_def getPackageById_def)

lemma find_append_last:
  "P x \<Longrightarrow> \<exists>y. find P (xs @ [x]) = Some y \<and> P y"
  by (induction xs) auto

text \<open>
  Claim C6, amended: when the primary (IndexedDB) tier cannot be opened, the lookup falls
  back to the degraded (localStorage) tier and returns the first catalog entry of that id
  there, or null; in particular, after a write that fell back to the degraded tier, it
  returns a catalog entry of that package's id. When the primary tier is available and
  holds nothing under the id, the lookup returns null without reading the degraded tier.
\<close>

theorem C6_fallback_only_when_primary_unavailable:
  "getPackageById OpenFails sto packageId
     = Resolved (map_option packageOf (find (\<lambda>p. pd_id p = packageId) (localPackages sto))) \<and>
   (outcome \<noteq> Succeeds \<longrightarrow>
      (\<exists>p. getPackageById OpenFails (storePackage outcome sto pkg) (pkg_id pkg) = Resolved (Some p)
           \<and> pkg_id p = pkg_id pkg)) \<and>
   (idbPackages sto packageId = None \<longrightarrow> getPackageById Succeeds sto packageId = Resolved None)"
proof -
  have "\<exists>p. getPackageById OpenFails (storePackage outcome sto pkg) (pkg_id pkg) = Resolved (Some p)
           \<and> pkg_id p = pkg_id pkg" if "outcome \<noteq> Succeeds"
  proof -
    from that have l: "localPackages (storePackage outcome sto pkg)
                         = localPackages sto @ [packageDataOf pkg]"
      by (cases outcome) (simp_all add: storePackage_def)
    have "pd_id (packageDataOf pkg) = pkg_id pkg" by (simp add: packageDataOf_def)
    from find_append_last [of "\<lambda>p. pd_id p = pkg_id pkg", OF this, of "localPackages sto"]
    obtain y where "find (\<lambda>p. pd_id p = pkg_id pkg) (localPackages sto @ [packageDataOf pkg]) = Some y"
      and "pd_id y = pkg_id pkg" by blast
    with l show ?thesis by (simp add: getPackageById_def packageOf_def)
  qed
  then show ?thesis by (simp add: getPackageById_def)
qed

theorem C6_fallback_only_when_primary_unavailable_witness:
  "getPackageById OpenFails (storePackage RequestFails emptyStorage examplePackage)
     (pkg_id examplePackage) = Resolved (Some examplePackage) \<and>
   idbPackages (storePackage RequestFails emptyStorage examplePackage) (pkg_id examplePackage)
     = None \<and>
   getPackageById Succeeds (storePackage RequestFails emptyStorage examplePackage)
     (pkg_id examplePackage) = Resolved None"
proof -
  let ?s = "storePackage RequestFails emptyStorage examplePackage"
  have i: "idbPackages ?s (pkg_id examplePackage) = None"
    by (simp add: storePackage_def emptyStorage_def)
  have l: "map_option packageOf (find (\<lambda>p. pd_id p = pkg_id examplePackage) (localPackages ?s))
             = Some examplePackage"
    by (simp add: storePackage_def emptyStorage_def packageDataOf_def packageOf_def
                  examplePackage_def)
  from C6_fallback_only_when_primary_unavailable [of ?s "pkg_id examplePackage"] i l
  show ?thesis by simp
qed

end
